theory Spec2Isabelle
  imports Complex_Main "HOL-Library.Monad_Syntax"
begin

section \<open>The readiness and repair script \<open>check_stack.py\<close>\<close>

text \<open>
  The script talks to three things outside itself: the Elasticsearch control API (through
  \<open>requests\<close>), the docker command line (through \<open>subprocess.run\<close>) and the
  wall clock (\<open>time.time\<close>, \<open>time.sleep\<close>). The model makes all three explicit.
  A run carries a state: the list of everything the script did so far, in order, each call
  together with the answer it got, and the current reading of the clock. The answers come
  from a \<open>world\<close>, which may look at the whole history before it answers, so that nothing
  is assumed about the server or about docker.

  The script is modelled twice. In the first model, \<open>main\<close>, every call of
  \<open>requests\<close> and of \<open>subprocess.run\<close> returns; the one exception that depends only
  on an argument of the script, \<open>time.sleep\<close> of a negative number, is part of it. The
  second model, \<open>main_exc\<close>, is the same script with calls that may also raise (connection
  refused, missing binary); a run of it in which no call raises is a run of \<open>main\<close>.
\<close>

subsection \<open>Data\<close>

datatype http_method = GET | POST | PUT | DELETE

text \<open>A parsed JSON document, as \<open>json.loads\<close> returns it (\<open>None\<close> is \<open>JNull\<close>).\<close>

datatype json =
    JNull
  | JBool bool
  | JInt int
  | JFloat real
  | JStr string
  | JArr "json list"
  | JObj "(string \<times> json) list"

text \<open>
  What a run leaves behind, in order. \<open>Http m url auth payload took status body\<close> is one
  call of \<open>http\<close> with the status code and text of the response and the seconds it took;
  \<open>Run cmd took returncode stdout stderr\<close> is one call of \<open>run\<close>.
\<close>

datatype event =
    Http http_method string "(string \<times> string) option" "json option" real int string
  | Run "string list" real int string string
  | Sleep int
  | Print string

text \<open>
  The world: command line and environment of the process, the clock at the start, the
  answers of the server and of docker, and the library functions whose code is not part
  of the repository (\<open>json.loads\<close>, \<open>json.dumps(_, indent=2)\<close>, the formatting of a
  value inside an f-string, \<open>str.strip\<close>, \<open>str.lower\<close>, \<open>str.splitlines\<close>).
\<close>

record world =
  argv :: "string list"
  getenv :: "string \<Rightarrow> string option"
  clock0 :: real
  http_reply :: "event list \<Rightarrow> http_method \<Rightarrow> string \<Rightarrow> (string \<times> string) option
                   \<Rightarrow> json option \<Rightarrow> real \<times> int \<times> string"
  run_reply :: "event list \<Rightarrow> string list \<Rightarrow> real \<times> int \<times> string \<times> string"
  json_loads :: "string \<Rightarrow> json option"
  json_dumps :: "json \<Rightarrow> string"
  py_str :: "json \<Rightarrow> string"
  str_strip :: "string \<Rightarrow> string"
  str_lower :: "string \<Rightarrow> string"
  str_splitlines :: "string \<Rightarrow> string list"

record state =
  trace :: "event list"
  now :: real

text \<open>
  How a piece of the script ends: it hands on a value, \<open>main\<close> returns an exit code, or
  an exception is raised and nobody catches it.
\<close>

datatype 'a res = Val 'a | Exit int | Raise string

subsection \<open>Helpers\<close>

fun digits :: "nat \<Rightarrow> string" where
  "digits n = (if n < 10 then [''0123456789'' ! n]
               else digits (n div 10) @ [''0123456789'' ! (n mod 10)])"

declare digits.simps [simp del]

definition str_int :: "int \<Rightarrow> string" where
  "str_int i = (if i < 0 then CHR ''-'' # digits (nat (- i)) else digits (nat i))"

definition print :: "string \<Rightarrow> 'a state_scheme \<Rightarrow> 'a state_scheme" where
  "print msg st = st\<lparr>trace := trace st @ [Print msg]\<rparr>"

definition run :: "world \<Rightarrow> string list \<Rightarrow> 'a state_scheme \<Rightarrow> (int \<times> string) \<times> 'a state_scheme" where
  "run W cmd st =
     (case run_reply W (trace st) cmd of
        (took, returncode, out, err) \<Rightarrow>
          ((returncode, str_strip W (out @ err)),
           st\<lparr>trace := trace st @ [Run cmd took returncode out err],
              now := now st + max 0 took\<rparr>))"

definition heading :: "string \<Rightarrow> 'a state_scheme \<Rightarrow> 'a state_scheme" where
  "heading title st =
     print (replicate 90 CHR ''='')
       (print title
         (print (CHR 0x0A # replicate 90 CHR ''='') st))"

definition ok :: "string \<Rightarrow> 'a state_scheme \<Rightarrow> 'a state_scheme" where
  "ok msg = print (''[OK] '' @ msg)"

definition warn :: "string \<Rightarrow> 'a state_scheme \<Rightarrow> 'a state_scheme" where
  "warn msg = print (''[WARN] '' @ msg)"

definition fail :: "string \<Rightarrow> 'a state_scheme \<Rightarrow> 'a state_scheme" where
  "fail msg = print (''[FAIL] '' @ msg)"

definition env :: "world \<Rightarrow> string \<Rightarrow> string option \<Rightarrow> string" where
  "env W name dflt =
     (case (case getenv W name of Some v \<Rightarrow> Some v | None \<Rightarrow> dflt) of
        None \<Rightarrow> []
      | Some v \<Rightarrow> v)"

definition http :: "world \<Rightarrow> http_method \<Rightarrow> string \<Rightarrow> (string \<times> string) option \<Rightarrow> json option
                      \<Rightarrow> 'a state_scheme \<Rightarrow> (int \<times> string) \<times> 'a state_scheme" where
  "http W m url auth payload st =
     (case http_reply W (trace st) m url auth payload of
        (took, status_code, body) \<Rightarrow>
          ((status_code, body),
           st\<lparr>trace := trace st @ [Http m url auth payload took status_code body],
              now := now st + max 0 took\<rparr>))"

definition jdump :: "world \<Rightarrow> string \<Rightarrow> nat \<Rightarrow> string" where
  "jdump W s limit =
     (case json_loads W s of
        Some j \<Rightarrow> take limit (json_dumps W j)
      | None \<Rightarrow> take limit s)"

text \<open>\<open>time.sleep\<close> raises \<open>ValueError\<close> on a negative length.\<close>

definition sleep :: "int \<Rightarrow> 'a state_scheme \<Rightarrow> unit res \<times> 'a state_scheme" where
  "sleep secs st =
     (if secs < 0 then (Raise ''ValueError'', st)
      else (Val (), st\<lparr>trace := trace st @ [Sleep secs], now := now st + real_of_int secs\<rparr>))"

text \<open>
  The loop of \<open>wait_until\<close>, with \<open>t0\<close> the clock reading taken before the loop. With a
  sleep length of zero and a predicate that takes no time the loop need not end, so the
  result is an option and \<open>None\<close> stands for a loop that runs forever.
\<close>

partial_function (option) wait_loop ::
  "string \<Rightarrow> ('a state_scheme \<Rightarrow> (bool \<times> string) \<times> 'a state_scheme) \<Rightarrow> int \<Rightarrow> int \<Rightarrow> real
     \<Rightarrow> 'a state_scheme \<Rightarrow> (bool res \<times> 'a state_scheme) option" where
  "wait_loop desc fn timeout_s sleep_s t0 st =
     (if now st - t0 < real_of_int timeout_s then
        (case fn st of
           ((ok_flag, info), st1) \<Rightarrow>
             if ok_flag then Some (Val True, ok (desc @ '': ready'') st1)
             else
               (case sleep sleep_s (print (''[WAIT] '' @ desc @ '': '' @ info) st1) of
                  (Val u, st2) \<Rightarrow> wait_loop desc fn timeout_s sleep_s t0 st2
                | (Exit n, st2) \<Rightarrow> Some (Exit n, st2)
                | (Raise e, st2) \<Rightarrow> Some (Raise e, st2)))
      else Some (Val False,
                 fail (desc @ '': timed out after '' @ str_int timeout_s @ ''s'') st))"

definition wait_until ::
  "string \<Rightarrow> ('a state_scheme \<Rightarrow> (bool \<times> string) \<times> 'a state_scheme) \<Rightarrow> int \<Rightarrow> int
     \<Rightarrow> 'a state_scheme \<Rightarrow> (bool res \<times> 'a state_scheme) option" where
  "wait_until desc fn timeout_s sleep_s st = wait_loop desc fn timeout_s sleep_s (now st) st"

subsection \<open>Configuration\<close>

definition rstrip_slash :: "string \<Rightarrow> string" where
  "rstrip_slash s = rev (dropWhile (\<lambda>c. c = CHR ''/'') (rev s))"

definition fix_mode :: "world \<Rightarrow> bool" where
  "fix_mode W = (''--fix'' \<in> set (argv W))"

definition ES_URL :: "world \<Rightarrow> string" where
  "ES_URL W = rstrip_slash (env W ''ES_URL'' (Some ''http://localhost:9200''))"

definition ES_USER :: "world \<Rightarrow> string" where
  "ES_USER W = env W ''ES_USER'' (Some ''elastic'')"

definition ES_PASS :: "world \<Rightarrow> string" where
  "ES_PASS W = env W ''ES_PASS'' (Some (env W ''ELASTIC_PASSWORD'' (Some ''changeme'')))"

definition auth :: "world \<Rightarrow> (string \<times> string) option" where
  "auth W = Some (ES_USER W, ES_PASS W)"

definition INDEX :: "world \<Rightarrow> string" where
  "INDEX W = env W ''ES_INDEX'' (Some ''oracle_elser_index'')"

definition PIPELINE_ID :: "world \<Rightarrow> string" where
  "PIPELINE_ID W = env W ''ES_INGEST_PIPELINE'' (Some ''elser_oracle_pipeline'')"

definition ELSER_MODEL_ID :: "world \<Rightarrow> string" where
  "ELSER_MODEL_ID W = env W ''ELSER_MODEL_ID'' (Some ''.elser_model_2'')"

definition LS_SERVICE :: "world \<Rightarrow> string" where
  "LS_SERVICE W = env W ''LS_SERVICE'' (Some ''ls01'')"

definition ES_CONTAINER :: "world \<Rightarrow> string" where
  "ES_CONTAINER W = env W ''ES_CONTAINER'' (Some ''es01'')"

subsection \<open>Reading parsed JSON the way the script does\<close>

text \<open>
  \<open>d.get(k, dflt)\<close>: an \<open>AttributeError\<close> (here \<open>None\<close>) unless \<open>d\<close> is a dict.
  Every use sits inside a \<open>try\<close> whose handler catches \<open>Exception\<close>.
\<close>

fun jget :: "json \<Rightarrow> string \<Rightarrow> json \<Rightarrow> json option" where
  "jget (JObj kvs) k dflt = Some (case map_of kvs k of Some v \<Rightarrow> v | None \<Rightarrow> dflt)"
| "jget _ _ _ = None"

text \<open>\<open>for m in v\<close>: a list gives its items, a string its characters, a dict its keys.\<close>

fun py_iter :: "json \<Rightarrow> json list option" where
  "py_iter (JArr xs) = Some xs"
| "py_iter (JStr s) = Some (map (\<lambda>c. JStr [c]) s)"
| "py_iter (JObj kvs) = Some (map (\<lambda>kv. JStr (fst kv)) kvs)"
| "py_iter _ = None"

text \<open>\<open>v[0]\<close>: the keys of a parsed dict are strings, so \<open>0\<close> is never one of them.\<close>

fun py_first :: "json \<Rightarrow> json option" where
  "py_first (JArr (x # xs)) = Some x"
| "py_first (JStr (c # cs)) = Some (JStr [c])"
| "py_first _ = None"

text \<open>The comprehension \<open>[m.get(k) for m in ms]\<close>: one failing item loses the whole list.\<close>

fun get_all :: "json list \<Rightarrow> string \<Rightarrow> json list option" where
  "get_all [] k = Some []"
| "get_all (m # ms) k =
     do { v \<leftarrow> jget m k JNull; vs \<leftarrow> get_all ms k; Some (v # vs) }"

definition parse_models :: "world \<Rightarrow> string \<Rightarrow> json list" where
  "parse_models W bd =
     (case do { jj \<leftarrow> json_loads W bd;
                cfgs \<leftarrow> jget jj ''trained_model_configs'' (JArr []);
                ms \<leftarrow> py_iter cfgs;
                get_all ms ''model_id'' } of
        Some models \<Rightarrow> models
      | None \<Rightarrow> [])"

definition parse_stats :: "world \<Rightarrow> string \<Rightarrow> (json \<times> json) option" where
  "parse_stats W bd2 =
     do { j2 \<leftarrow> json_loads W bd2;
          tms \<leftarrow> jget j2 ''trained_model_stats'' (JArr [JObj []]);
          tm \<leftarrow> py_first tms;
          ds \<leftarrow> jget tm ''deployment_stats'' (JObj []);
          state \<leftarrow> jget ds ''state'' JNull;
          alloc \<leftarrow> jget ds ''allocation_status'' (JObj []);
          Some (state, alloc) }"

subsection \<open>The two readiness probes\<close>

definition model_url :: "world \<Rightarrow> string" where
  "model_url W = ES_URL W @ ''/_ml/trained_models/'' @ ELSER_MODEL_ID W"

definition download_ready :: "world \<Rightarrow> state \<Rightarrow> (bool \<times> string) \<times> state" where
  "download_ready W st =
     (case http W GET (model_url W @ ''?pretty'') (auth W) None st of
        ((st2, bd2), st') \<Rightarrow>
          if st2 \<noteq> 200 then ((False, ''HTTP '' @ str_int st2), st')
          else (case json_loads W bd2 of
                  Some j2 \<Rightarrow> ((True, ''model exists''), st')
                | None \<Rightarrow> ((False, ''not json yet''), st')))"

definition deploy_status :: "world \<Rightarrow> state \<Rightarrow> (bool \<times> string) \<times> state" where
  "deploy_status W st =
     (case http W GET (model_url W @ ''/_stats?pretty'') (auth W) None st of
        ((st2, bd2), st') \<Rightarrow>
          if st2 \<noteq> 200 then ((False, ''HTTP '' @ str_int st2 @ '': '' @ take 120 bd2), st')
          else (case parse_stats W bd2 of
                  Some (state, alloc) \<Rightarrow>
                    if state = JStr ''started'' then ((True, ''started''), st')
                    else ((False, ''state='' @ py_str W state @ '', alloc='' @ py_str W alloc), st')
                | None \<Rightarrow> ((False, ''could not parse stats''), st')))"

subsection \<open>The checklist of \<open>main\<close>, one definition for each heading\<close>

text \<open>
  Sequencing: the next piece runs only when the one before handed on a value. A
  \<open>return\<close> of \<open>main\<close>, an uncaught exception and a loop that never ends all stop the run.
\<close>

definition thn :: "('a res \<times> 's) option \<Rightarrow> ('a \<Rightarrow> 's \<Rightarrow> ('b res \<times> 's) option) \<Rightarrow> ('b res \<times> 's) option" where
  "thn m k =
     (case m of
        None \<Rightarrow> None
      | Some (Val a, st) \<Rightarrow> k a st
      | Some (Exit n, st) \<Rightarrow> Some (Exit n, st)
      | Some (Raise e, st) \<Rightarrow> Some (Raise e, st))"

definition docker_ps :: "string list" where
  "docker_ps = [''docker'', ''ps'', ''--format'',
                ''{{.Names}}'' @ [CHR 0x09] @ ''{{.Status}}'' @ [CHR 0x09] @ ''{{.Ports}}'']"

definition docker_status :: "world \<Rightarrow> state \<Rightarrow> unit res \<times> state" where
  "docker_status W st0 =
     (case run W docker_ps (heading ''1) Docker: containers & basic status'' st0) of
        ((code, out), s1) \<Rightarrow>
          if code \<noteq> 0 then
            (Exit 2, print out (fail ''Docker command failed. Is Docker Desktop running?'' s1))
          else (Val (), print out s1))"

definition reachability :: "world \<Rightarrow> state \<Rightarrow> unit res \<times> state" where
  "reachability W st0 =
     (case http W GET (ES_URL W @ ''/'') (auth W) None
             (heading ''2) Elasticsearch: reachability + license'' st0) of
        ((st, bd), s1) \<Rightarrow>
          if st \<noteq> 200 then
            (Exit 3,
             print (take 1200 bd)
               (fail (''Elasticsearch not reachable or auth failed (HTTP '' @ str_int st @ '')'') s1))
          else
            (case http W GET (ES_URL W @ ''/_license?pretty'') (auth W) None
                    (print (jdump W bd 900)
                      (ok (''Elasticsearch reachable at '' @ ES_URL W @ '' (auth OK)'') s1)) of
               ((st', bd'), s2) \<Rightarrow> (Val (), print (jdump W bd' 1200) s2)))"

definition list_models :: "world \<Rightarrow> state \<Rightarrow> bool res \<times> state" where
  "list_models W st0 =
     (case http W GET (ES_URL W @ ''/_ml/trained_models?size=200&pretty'') (auth W) None
             (heading ''3) ML: list models, ensure ELSER exists, download + deploy (if --fix)'' st0) of
        ((st, bd), s1) \<Rightarrow>
          if st \<noteq> 200 then
            (Exit 4,
             print (take 1200 bd)
               (fail (''Cannot list trained models (HTTP '' @ str_int st @ '').'') s1))
          else
            (let models = parse_models W bd;
                 have_elser = (JStr (ELSER_MODEL_ID W) \<in> set models);
                 s2 = fold (\<lambda>m. print (''  - '' @ py_str W m)) (take 40 models)
                        (print ''Known trained models (first 40):'' s1)
             in (Val have_elser,
                 if have_elser then ok (''ELSE R model found: '' @ ELSER_MODEL_ID W) s2
                 else warn (''ELSE R model NOT found: '' @ ELSER_MODEL_ID W) s2)))"

definition download_model :: "world \<Rightarrow> state \<Rightarrow> (unit res \<times> state) option" where
  "download_model W st0 =
     (case http W POST (model_url W @ ''/_download?pretty'') (auth W) None
             (heading ''3A) Download ELSER model'' st0) of
        ((st, bd), s1) \<Rightarrow>
          (let s2 = print (jdump W bd 1600) s1 in
           if st \<notin> {200, 201} then Some (Exit 5, fail ''ELSE R download request failed.'' s2)
           else
             thn (wait_until ''ELSE R model availability'' (download_ready W) 600 10 s2)
               (\<lambda>ready s3. if \<not> ready then Some (Exit 6, s3) else Some (Val (), s3))))"

definition start_payload :: json where
  "start_payload = JObj [(''number_of_allocations'', JInt 1), (''threads_per_allocation'', JInt 1)]"

definition ensure_deployment :: "world \<Rightarrow> state \<Rightarrow> (unit res \<times> state) option" where
  "ensure_deployment W st0 =
     (if fix_mode W then
        (case http W POST (model_url W @ ''/deployment/_start?pretty'') (auth W) (Some start_payload)
                (heading ''3B) Start deployment (if not started)'' st0) of
           ((st, bd), s1) \<Rightarrow>
             (let s2 = print (jdump W bd 1600) s1 in
              if st \<notin> {200, 201, 409} then Some (Exit 7, fail ''Deployment start request failed.'' s2)
              else
                thn (wait_until ''ELSE R deployment'' (deploy_status W) 600 10 s2)
                  (\<lambda>ready s3. if \<not> ready then Some (Exit 8, s3) else Some (Val (), s3))))
      else
        (case deploy_status W (ok ''Skipping deployment changes (read-only mode).'' st0) of
           (unused, s1) \<Rightarrow> Some (Val (), s1)))"

definition pipeline_payload :: "world \<Rightarrow> json" where
  "pipeline_payload W =
     JObj [(''processors'',
       JArr [JObj [(''inference'',
         JObj [(''model_id'', JStr (ELSER_MODEL_ID W)),
               (''input_output'',
                  JArr [JObj [(''input_field'', JStr ''content''),
                              (''output_field'', JStr ''ml.tokens'')]]),
               (''inference_config'', JObj [(''text_expansion'', JObj [])])])]])]"

definition ingest_pipeline :: "world \<Rightarrow> state \<Rightarrow> unit res \<times> state" where
  "ingest_pipeline W st0 =
     (let s0 = heading ''4) Ingest pipeline: ensure it points to the correct model id (if --fix)'' st0;
          url = ES_URL W @ ''/_ingest/pipeline/'' @ PIPELINE_ID W @ ''?pretty''
      in if fix_mode W then
           (case http W PUT url (auth W) (Some (pipeline_payload W)) s0 of
              ((st, bd), s1) \<Rightarrow>
                (let s2 = print (jdump W bd 1200) s1 in
                 if st \<notin> {200, 201} then
                   (Exit 9, fail (''Failed to create/update ingest pipeline '' @ PIPELINE_ID W @ ''.'') s2)
                 else (Val (), ok (''Ingest pipeline ready: '' @ PIPELINE_ID W) s2)))
         else
           (case http W GET url (auth W) None s0 of
              ((st, bd), s1) \<Rightarrow>
                if st = 200 then (Val (), ok (''Ingest pipeline exists: '' @ PIPELINE_ID W) s1)
                else (Val (), warn (''Ingest pipeline missing (HTTP '' @ str_int st @ '').'') s1)))"

definition index_payload :: json where
  "index_payload =
     JObj [(''mappings'',
       JObj [(''properties'',
         JObj [(''id'', JObj [(''type'', JStr ''keyword'')]),
               (''title'', JObj [(''type'', JStr ''text'')]),
               (''body'', JObj [(''type'', JStr ''text'')]),
               (''content'', JObj [(''type'', JStr ''text'')]),
               (''updated_at'', JObj [(''type'', JStr ''date'')]),
               (''ml'', JObj [(''properties'',
                  JObj [(''tokens'', JObj [(''type'', JStr ''rank_features'')])])])])])]"

definition index_mapping :: "world \<Rightarrow> state \<Rightarrow> unit res \<times> state" where
  "index_mapping W st0 =
     (let s0 = heading ''5) Index mapping: ensure ml.tokens is rank_features (if --fix)'' st0;
          url = ES_URL W @ ''/'' @ INDEX W @ ''?pretty''
      in if fix_mode W then
           (case http W DELETE url (auth W) None s0 of
              ((st, bd), s1) \<Rightarrow>
                (case http W PUT url (auth W) (Some index_payload) (print (jdump W bd 600) s1) of
                   ((st', bd'), s2) \<Rightarrow>
                     (let s3 = print (jdump W bd' 1200) s2 in
                      if st' \<notin> {200, 201} then
                        (Exit 10, fail (''Failed to create index '' @ INDEX W @ ''.'') s3)
                      else (Val (), ok (''Index ready: '' @ INDEX W) s3))))
         else (Val (), ok ''Skipping index recreation (read-only mode).'' s0))"

definition compose_restart :: "world \<Rightarrow> string list" where
  "compose_restart W = [''docker'', ''compose'', ''restart'', LS_SERVICE W]"

definition docker_restart :: "world \<Rightarrow> string list" where
  "docker_restart W = [''docker'', ''restart'', LS_SERVICE W]"

definition restart_logstash :: "world \<Rightarrow> state \<Rightarrow> unit res \<times> state" where
  "restart_logstash W s0 =
     (case run W (compose_restart W) s0 of
        ((code, out), s1) \<Rightarrow>
          (let s2 = print (take 1200 out) s1;
               s3 = (if code \<noteq> 0 then
                       (case run W (docker_restart W)
                               (warn ''docker compose restart failed; trying docker restart'' s2) of
                          ((code2, out2), s') \<Rightarrow> print (take 1200 out2) s')
                     else s2)
           in sleep 20 s3))"

definition restart_and_count :: "world \<Rightarrow> state \<Rightarrow> unit res \<times> state" where
  "restart_and_count W st0 =
     (let s0 = heading ''6) Restart Logstash (if --fix) and verify indexing'' st0 in
      case (if fix_mode W then restart_logstash W s0 else (Val (), s0)) of
        (Val u, s1) \<Rightarrow>
          (case http W GET (ES_URL W @ ''/'' @ INDEX W @ ''/_count?pretty'') (auth W) None s1 of
             ((st, bd), s2) \<Rightarrow> (Val (), print (jdump W bd 800) s2))
      | (Exit n, s1) \<Rightarrow> (Exit n, s1)
      | (Raise e, s1) \<Rightarrow> (Raise e, s1))"

text \<open>\<open>needle in line\<close> on strings, \<open>xs[-n:]\<close> and \<open>"\n".join(lines)\<close>.\<close>

fun contains :: "string \<Rightarrow> string \<Rightarrow> bool" where
  "contains needle [] = (needle = [])"
| "contains needle (c # cs) = (take (length needle) (c # cs) = needle \<or> contains needle cs)"

definition last_n :: "nat \<Rightarrow> 'a list \<Rightarrow> 'a list" where
  "last_n n xs = drop (length xs - n) xs"

fun join_lines :: "string list \<Rightarrow> string" where
  "join_lines [] = []"
| "join_lines [l] = l"
| "join_lines (l # ls) = l @ [CHR 0x0A] @ join_lines ls"

definition needles :: "string list" where
  "needles = [''Could not index event'', ''status_exception'', ''pipeline'', ''inference'',
              ''ml'', ''ORA-'', ''SELECT'']"

definition docker_logs :: "world \<Rightarrow> string list" where
  "docker_logs W = [''docker'', ''logs'', ''--tail'', ''160'', LS_SERVICE W]"

definition logstash_evidence :: "world \<Rightarrow> state \<Rightarrow> state" where
  "logstash_evidence W st0 =
     (case run W (docker_logs W) (heading ''7) Recent Logstash evidence (tail)'' st0) of
        ((code, out), s1) \<Rightarrow>
          if code = 0 then
            (let lines = filter (\<lambda>ln. list_ex (\<lambda>n. contains (str_lower W n) (str_lower W ln)) needles)
                           (str_splitlines W out)
             in if lines \<noteq> [] then print (join_lines (last_n 140 lines)) s1
                else print (last_n 1200 out) s1)
          else print out s1)"

definition main :: "world \<Rightarrow> (unit res \<times> state) option" where
  "main W =
     (let st = print (''Fix mode: '' @ (if fix_mode W then ''ON (--fix)'' else ''OFF (read-only)''))
                 (heading ''0) Mode'' \<lparr>trace = [], now = clock0 W\<rparr>)
      in
      thn (Some (docker_status W st)) (\<lambda>u st.
      thn (Some (reachability W st)) (\<lambda>u st.
      thn (Some (list_models W st)) (\<lambda>have_elser st.
      thn (if fix_mode W \<and> \<not> have_elser then download_model W st else Some (Val (), st)) (\<lambda>u st.
      thn (ensure_deployment W st) (\<lambda>u st.
      thn (Some (ingest_pipeline W st)) (\<lambda>u st.
      thn (Some (index_mapping W st)) (\<lambda>u st.
      thn (Some (restart_and_count W st)) (\<lambda>u st.
      Some (Exit 0,
            ok ''If count is still 0, paste sections 6 and 7 output only.''
              (heading ''DONE'' (logstash_evidence W st))))))))))))"

subsection \<open>Library calls that raise\<close>

text \<open>
  \<open>requests\<close> raises when no response arrives (connection refused, timeout) and
  \<open>subprocess.run\<close> raises when the program cannot be started (no \<open>docker\<close> on the
  path). The script calls \<open>http\<close> and \<open>run\<close> outside of every \<open>try\<close>, so what they
  raise leaves \<open>main\<close>, and the interpreter ends the process with status 1 instead of
  the status \<open>sys.exit(main())\<close> would have given.

  The definitions of this part are the script once more, with calls that may raise:
  \<open>faults\<close> says for every call, again in view of the whole history, whether it raises
  and what. A call that raises leaves nothing in the trace.
\<close>

record faults =
  run_raises :: "event list \<Rightarrow> string list \<Rightarrow> string option"
  http_raises :: "event list \<Rightarrow> http_method \<Rightarrow> string \<Rightarrow> (string \<times> string) option
                    \<Rightarrow> json option \<Rightarrow> string option"

definition run_exc :: "world \<Rightarrow> faults \<Rightarrow> string list \<Rightarrow> state \<Rightarrow> (int \<times> string) res \<times> state" where
  "run_exc W F cmd st =
     (case run_raises F (trace st) cmd of
        Some e \<Rightarrow> (Raise e, st)
      | None \<Rightarrow> (case run W cmd st of (r, st') \<Rightarrow> (Val r, st')))"

definition http_exc :: "world \<Rightarrow> faults \<Rightarrow> http_method \<Rightarrow> string \<Rightarrow> (string \<times> string) option
                          \<Rightarrow> json option \<Rightarrow> state \<Rightarrow> (int \<times> string) res \<times> state" where
  "http_exc W F m url credentials payload st =
     (case http_raises F (trace st) m url credentials payload of
        Some e \<Rightarrow> (Raise e, st)
      | None \<Rightarrow> (case http W m url credentials payload st of (r, st') \<Rightarrow> (Val r, st')))"

text \<open>Sequencing for pieces without a loop, as \<open>thn\<close> for those with one.\<close>

definition bnd :: "'a res \<times> 's \<Rightarrow> ('a \<Rightarrow> 's \<Rightarrow> 'b res \<times> 's) \<Rightarrow> 'b res \<times> 's" where
  "bnd m k =
     (case m of
        (Val a, st) \<Rightarrow> k a st
      | (Exit n, st) \<Rightarrow> (Exit n, st)
      | (Raise e, st) \<Rightarrow> (Raise e, st))"

partial_function (option) wait_loop_exc ::
  "string \<Rightarrow> (state \<Rightarrow> (bool \<times> string) res \<times> state) \<Rightarrow> int \<Rightarrow> int \<Rightarrow> real
     \<Rightarrow> state \<Rightarrow> (bool res \<times> state) option" where
  "wait_loop_exc desc fn timeout_s sleep_s t0 st =
     (if now st - t0 < real_of_int timeout_s then
        (case fn st of
           (Val (ok_flag, info), st1) \<Rightarrow>
             if ok_flag then Some (Val True, ok (desc @ '': ready'') st1)
             else
               (case sleep sleep_s (print (''[WAIT] '' @ desc @ '': '' @ info) st1) of
                  (Val u, st2) \<Rightarrow> wait_loop_exc desc fn timeout_s sleep_s t0 st2
                | (Exit n, st2) \<Rightarrow> Some (Exit n, st2)
                | (Raise e, st2) \<Rightarrow> Some (Raise e, st2))
         | (Exit n, st1) \<Rightarrow> Some (Exit n, st1)
         | (Raise e, st1) \<Rightarrow> Some (Raise e, st1))
      else Some (Val False,
                 fail (desc @ '': timed out after '' @ str_int timeout_s @ ''s'') st))"

definition wait_until_exc ::
  "string \<Rightarrow> (state \<Rightarrow> (bool \<times> string) res \<times> state) \<Rightarrow> int \<Rightarrow> int
     \<Rightarrow> state \<Rightarrow> (bool res \<times> state) option" where
  "wait_until_exc desc fn timeout_s sleep_s st =
     wait_loop_exc desc fn timeout_s sleep_s (now st) st"

definition download_ready_exc :: "world \<Rightarrow> faults \<Rightarrow> state \<Rightarrow> (bool \<times> string) res \<times> state" where
  "download_ready_exc W F st =
     bnd (http_exc W F GET (model_url W @ ''?pretty'') (auth W) None st) (\<lambda>(st2, bd2) st'.
       if st2 \<noteq> 200 then (Val (False, ''HTTP '' @ str_int st2), st')
       else (case json_loads W bd2 of
               Some j2 \<Rightarrow> (Val (True, ''model exists''), st')
             | None \<Rightarrow> (Val (False, ''not json yet''), st')))"

definition deploy_status_exc :: "world \<Rightarrow> faults \<Rightarrow> state \<Rightarrow> (bool \<times> string) res \<times> state" where
  "deploy_status_exc W F st =
     bnd (http_exc W F GET (model_url W @ ''/_stats?pretty'') (auth W) None st) (\<lambda>(st2, bd2) st'.
       if st2 \<noteq> 200 then (Val (False, ''HTTP '' @ str_int st2 @ '': '' @ take 120 bd2), st')
       else (case parse_stats W bd2 of
               Some (state, alloc) \<Rightarrow>
                 if state = JStr ''started'' then (Val (True, ''started''), st')
                 else (Val (False, ''state='' @ py_str W state @ '', alloc='' @ py_str W alloc), st')
             | None \<Rightarrow> (Val (False, ''could not parse stats''), st')))"

definition docker_status_exc :: "world \<Rightarrow> faults \<Rightarrow> state \<Rightarrow> unit res \<times> state" where
  "docker_status_exc W F st0 =
     bnd (run_exc W F docker_ps (heading ''1) Docker: containers & basic status'' st0))
       (\<lambda>(code, out) s1.
          if code \<noteq> 0 then
            (Exit 2, print out (fail ''Docker command failed. Is Docker Desktop running?'' s1))
          else (Val (), print out s1))"

definition reachability_exc :: "world \<Rightarrow> faults \<Rightarrow> state \<Rightarrow> unit res \<times> state" where
  "reachability_exc W F st0 =
     bnd (http_exc W F GET (ES_URL W @ ''/'') (auth W) None
            (heading ''2) Elasticsearch: reachability + license'' st0))
       (\<lambda>(st, bd) s1.
          if st \<noteq> 200 then
            (Exit 3,
             print (take 1200 bd)
               (fail (''Elasticsearch not reachable or auth failed (HTTP '' @ str_int st @ '')'') s1))
          else
            bnd (http_exc W F GET (ES_URL W @ ''/_license?pretty'') (auth W) None
                   (print (jdump W bd 900)
                     (ok (''Elasticsearch reachable at '' @ ES_URL W @ '' (auth OK)'') s1)))
              (\<lambda>(st', bd') s2. (Val (), print (jdump W bd' 1200) s2)))"

definition list_models_exc :: "world \<Rightarrow> faults \<Rightarrow> state \<Rightarrow> bool res \<times> state" where
  "list_models_exc W F st0 =
     bnd (http_exc W F GET (ES_URL W @ ''/_ml/trained_models?size=200&pretty'') (auth W) None
            (heading ''3) ML: list models, ensure ELSER exists, download + deploy (if --fix)'' st0))
       (\<lambda>(st, bd) s1.
          if st \<noteq> 200 then
            (Exit 4,
             print (take 1200 bd)
               (fail (''Cannot list trained models (HTTP '' @ str_int st @ '').'') s1))
          else
            (let models = parse_models W bd;
                 have_elser = (JStr (ELSER_MODEL_ID W) \<in> set models);
                 s2 = fold (\<lambda>m. print (''  - '' @ py_str W m)) (take 40 models)
                        (print ''Known trained models (first 40):'' s1)
             in (Val have_elser,
                 if have_elser then ok (''ELSE R model found: '' @ ELSER_MODEL_ID W) s2
                 else warn (''ELSE R model NOT found: '' @ ELSER_MODEL_ID W) s2)))"

definition download_model_exc :: "world \<Rightarrow> faults \<Rightarrow> state \<Rightarrow> (unit res \<times> state) option" where
  "download_model_exc W F st0 =
     thn (Some (http_exc W F POST (model_url W @ ''/_download?pretty'') (auth W) None
                  (heading ''3A) Download ELSER model'' st0)))
       (\<lambda>(st, bd) s1.
          (let s2 = print (jdump W bd 1600) s1 in
           if st \<notin> {200, 201} then Some (Exit 5, fail ''ELSE R download request failed.'' s2)
           else
             thn (wait_until_exc ''ELSE R model availability'' (download_ready_exc W F) 600 10 s2)
               (\<lambda>ready s3. if \<not> ready then Some (Exit 6, s3) else Some (Val (), s3))))"

definition ensure_deployment_exc :: "world \<Rightarrow> faults \<Rightarrow> state \<Rightarrow> (unit res \<times> state) option" where
  "ensure_deployment_exc W F st0 =
     (if fix_mode W then
        thn (Some (http_exc W F POST (model_url W @ ''/deployment/_start?pretty'') (auth W)
                     (Some start_payload) (heading ''3B) Start deployment (if not started)'' st0)))
          (\<lambda>(st, bd) s1.
             (let s2 = print (jdump W bd 1600) s1 in
              if st \<notin> {200, 201, 409} then Some (Exit 7, fail ''Deployment start request failed.'' s2)
              else
                thn (wait_until_exc ''ELSE R deployment'' (deploy_status_exc W F) 600 10 s2)
                  (\<lambda>ready s3. if \<not> ready then Some (Exit 8, s3) else Some (Val (), s3))))
      else
        Some (bnd (deploy_status_exc W F (ok ''Skipping deployment changes (read-only mode).'' st0))
                (\<lambda>unused s1. (Val (), s1))))"

definition ingest_pipeline_exc :: "world \<Rightarrow> faults \<Rightarrow> state \<Rightarrow> unit res \<times> state" where
  "ingest_pipeline_exc W F st0 =
     (let s0 = heading ''4) Ingest pipeline: ensure it points to the correct model id (if --fix)'' st0;
          url = ES_URL W @ ''/_ingest/pipeline/'' @ PIPELINE_ID W @ ''?pretty''
      in if fix_mode W then
           bnd (http_exc W F PUT url (auth W) (Some (pipeline_payload W)) s0) (\<lambda>(st, bd) s1.
             (let s2 = print (jdump W bd 1200) s1 in
              if st \<notin> {200, 201} then
                (Exit 9, fail (''Failed to create/update ingest pipeline '' @ PIPELINE_ID W @ ''.'') s2)
              else (Val (), ok (''Ingest pipeline ready: '' @ PIPELINE_ID W) s2)))
         else
           bnd (http_exc W F GET url (auth W) None s0) (\<lambda>(st, bd) s1.
             if st = 200 then (Val (), ok (''Ingest pipeline exists: '' @ PIPELINE_ID W) s1)
             else (Val (), warn (''Ingest pipeline missing (HTTP '' @ str_int st @ '').'') s1)))"

definition index_mapping_exc :: "world \<Rightarrow> faults \<Rightarrow> state \<Rightarrow> unit res \<times> state" where
  "index_mapping_exc W F st0 =
     (let s0 = heading ''5) Index mapping: ensure ml.tokens is rank_features (if --fix)'' st0;
          url = ES_URL W @ ''/'' @ INDEX W @ ''?pretty''
      in if fix_mode W then
           bnd (http_exc W F DELETE url (auth W) None s0) (\<lambda>(st, bd) s1.
             bnd (http_exc W F PUT url (auth W) (Some index_payload) (print (jdump W bd 600) s1))
               (\<lambda>(st', bd') s2.
                  (let s3 = print (jdump W bd' 1200) s2 in
                   if st' \<notin> {200, 201} then
                     (Exit 10, fail (''Failed to create index '' @ INDEX W @ ''.'') s3)
                   else (Val (), ok (''Index ready: '' @ INDEX W) s3))))
         else (Val (), ok ''Skipping index recreation (read-only mode).'' s0))"

definition restart_logstash_exc :: "world \<Rightarrow> faults \<Rightarrow> state \<Rightarrow> unit res \<times> state" where
  "restart_logstash_exc W F s0 =
     bnd (run_exc W F (compose_restart W) s0) (\<lambda>(code, out) s1.
       (let s2 = print (take 1200 out) s1 in
        bnd (if code \<noteq> 0 then
               bnd (run_exc W F (docker_restart W)
                      (warn ''docker compose restart failed; trying docker restart'' s2))
                 (\<lambda>(code2, out2) s'. (Val (), print (take 1200 out2) s'))
             else (Val (), s2))
          (\<lambda>u s3. sleep 20 s3)))"

definition restart_and_count_exc :: "world \<Rightarrow> faults \<Rightarrow> state \<Rightarrow> unit res \<times> state" where
  "restart_and_count_exc W F st0 =
     (let s0 = heading ''6) Restart Logstash (if --fix) and verify indexing'' st0 in
      bnd (if fix_mode W then restart_logstash_exc W F s0 else (Val (), s0)) (\<lambda>u s1.
        bnd (http_exc W F GET (ES_URL W @ ''/'' @ INDEX W @ ''/_count?pretty'') (auth W) None s1)
          (\<lambda>(st, bd) s2. (Val (), print (jdump W bd 800) s2))))"

definition logstash_evidence_exc :: "world \<Rightarrow> faults \<Rightarrow> state \<Rightarrow> unit res \<times> state" where
  "logstash_evidence_exc W F st0 =
     bnd (run_exc W F (docker_logs W) (heading ''7) Recent Logstash evidence (tail)'' st0))
       (\<lambda>(code, out) s1.
          (Val (),
           if code = 0 then
             (let lines = filter (\<lambda>ln. list_ex (\<lambda>n. contains (str_lower W n) (str_lower W ln)) needles)
                            (str_splitlines W out)
              in if lines \<noteq> [] then print (join_lines (last_n 140 lines)) s1
                 else print (last_n 1200 out) s1)
           else print out s1))"

definition main_exc :: "world \<Rightarrow> faults \<Rightarrow> (unit res \<times> state) option" where
  "main_exc W F =
     (let st = print (''Fix mode: '' @ (if fix_mode W then ''ON (--fix)'' else ''OFF (read-only)''))
                 (heading ''0) Mode'' \<lparr>trace = [], now = clock0 W\<rparr>)
      in
      thn (Some (docker_status_exc W F st)) (\<lambda>u st.
      thn (Some (reachability_exc W F st)) (\<lambda>u st.
      thn (Some (list_models_exc W F st)) (\<lambda>have_elser st.
      thn (if fix_mode W \<and> \<not> have_elser then download_model_exc W F st else Some (Val (), st))
        (\<lambda>u st.
      thn (ensure_deployment_exc W F st) (\<lambda>u st.
      thn (Some (ingest_pipeline_exc W F st)) (\<lambda>u st.
      thn (Some (index_mapping_exc W F st)) (\<lambda>u st.
      thn (Some (restart_and_count_exc W F st)) (\<lambda>u st.
      thn (Some (logstash_evidence_exc W F st)) (\<lambda>u st.
      Some (Exit 0,
            ok ''If count is still 0, paste sections 6 and 7 output only.''
              (heading ''DONE'' st))))))))))))"


section \<open>Vocabulary of the properties\<close>

subsection \<open>Rounds of the polling loop\<close>

text \<open>
  One unsuccessful round of the loop: the predicate is invoked, its status is reported
  and the loop sleeps. \<open>polls n st\<close> is the state after \<open>n\<close> such rounds from \<open>st\<close>,
  that is the state in which invocation number \<open>n + 1\<close> starts, and \<open>ready_at n st\<close>
  says that this invocation answers ready.
\<close>

definition miss ::
  "string \<Rightarrow> ('a state_scheme \<Rightarrow> (bool \<times> string) \<times> 'a state_scheme) \<Rightarrow> int
     \<Rightarrow> 'a state_scheme \<Rightarrow> 'a state_scheme" where
  "miss desc fn sleep_s st =
     (case fn st of
        ((ok_flag, info), st1) \<Rightarrow> snd (sleep sleep_s (print (''[WAIT] '' @ desc @ '': '' @ info) st1)))"

fun polls ::
  "string \<Rightarrow> ('a state_scheme \<Rightarrow> (bool \<times> string) \<times> 'a state_scheme) \<Rightarrow> int \<Rightarrow> nat
     \<Rightarrow> 'a state_scheme \<Rightarrow> 'a state_scheme" where
  "polls desc fn sleep_s 0 st = st"
| "polls desc fn sleep_s (Suc n) st = polls desc fn sleep_s n (miss desc fn sleep_s st)"

definition ready_at ::
  "string \<Rightarrow> ('a state_scheme \<Rightarrow> (bool \<times> string) \<times> 'a state_scheme) \<Rightarrow> int \<Rightarrow> nat
     \<Rightarrow> 'a state_scheme \<Rightarrow> bool" where
  "ready_at desc fn sleep_s n st = fst (fst (fn (polls desc fn sleep_s n st)))"

text \<open>
  Three predicates to try the loop on, and a fresh state. \<open>late_probe\<close> answers at
  once and is ready when the clock has reached 20; \<open>slow_probe\<close> does the same but
  takes 20 seconds for each answer; \<open>never_probe\<close> answers at once and is never ready.
\<close>

definition idle :: state where
  "idle = \<lparr>trace = [], now = 0\<rparr>"

definition late_probe :: "state \<Rightarrow> (bool \<times> string) \<times> state" where
  "late_probe st = ((20 \<le> now st, ''starting''), st)"

definition slow_probe :: "state \<Rightarrow> (bool \<times> string) \<times> state" where
  "slow_probe st = ((20 \<le> now st, ''starting''), st\<lparr>now := now st + 20\<rparr>)"

definition never_probe :: "state \<Rightarrow> (bool \<times> string) \<times> state" where
  "never_probe st = ((False, ''starting''), st)"

subsection \<open>Traces\<close>

text \<open>The three lines that \<open>heading\<close> prints.\<close>

definition heading_ev :: "string \<Rightarrow> event list" where
  "heading_ev title =
     [Print (CHR 0x0A # replicate 90 CHR ''=''), Print title, Print (replicate 90 CHR ''='')]"

fun is_print :: "event \<Rightarrow> bool" where
  "is_print (Print m) = True"
| "is_print e = False"

text \<open>The calls of a trace: everything but the output.\<close>

definition calls :: "event list \<Rightarrow> event list" where
  "calls tr = filter (\<lambda>e. \<not> is_print e) tr"

text \<open>
  \<open>adds P s s'\<close>: the run went from \<open>s\<close> to \<open>s'\<close>, everything it did on the way
  satisfies \<open>P\<close>, and the clock did not go backwards.
\<close>

definition adds :: "(event \<Rightarrow> bool) \<Rightarrow> 'a state_scheme \<Rightarrow> 'a state_scheme \<Rightarrow> bool" where
  "adds P s s' \<longleftrightarrow> (\<exists>es. trace s' = trace s @ es \<and> list_all P es) \<and> now s \<le> now s'"

text \<open>\<open>is_run cmd e\<close>: the entry \<open>e\<close> is an execution of the command \<open>cmd\<close>.\<close>

fun is_run :: "string list \<Rightarrow> event \<Rightarrow> bool" where
  "is_run cmd (Run c took rc out err) = (c = cmd)"
| "is_run cmd e = False"

text \<open>
  The lines a trace prints, and for a whole run of \<open>main\<close> its output (\<open>transcript\<close>)
  and its calls (\<open>requests\<close>). \<open>mentions txt ls\<close>: some line of \<open>ls\<close> contains \<open>txt\<close>.
\<close>

fun printed :: "event list \<Rightarrow> string list" where
  "printed [] = []"
| "printed (Print m # es) = m # printed es"
| "printed (e # es) = printed es"

definition transcript :: "world \<Rightarrow> string list" where
  "transcript W = (case main W of Some (r, s) \<Rightarrow> printed (trace s) | None \<Rightarrow> [])"

definition requests :: "world \<Rightarrow> event list" where
  "requests W = (case main W of Some (r, s) \<Rightarrow> calls (trace s) | None \<Rightarrow> [])"

definition mentions :: "string \<Rightarrow> string list \<Rightarrow> bool" where
  "mentions txt ls = list_ex (contains txt) ls"

subsection \<open>The listing of models\<close>

text \<open>
  The list of model identifiers that a listing returns, as the specification has it: the
  entries of \<open>trained_model_configs\<close> in the parsed body, and the \<open>model_id\<close> of every
  entry that has one. The script reads the list with \<open>parse_models\<close>, which gives up on
  the whole list at the first entry that is not an object.
\<close>

definition entries :: "world \<Rightarrow> string \<Rightarrow> json list" where
  "entries W bd =
     (case json_loads W bd of
        Some (JObj kvs) \<Rightarrow>
          (case map_of kvs ''trained_model_configs'' of Some (JArr ms) \<Rightarrow> ms | _ \<Rightarrow> [])
      | _ \<Rightarrow> [])"

fun is_obj :: "json \<Rightarrow> bool" where
  "is_obj (JObj kvs) = True"
| "is_obj j = False"

fun entry_id :: "json \<Rightarrow> json list" where
  "entry_id (JObj kvs) = (case map_of kvs ''model_id'' of Some v \<Rightarrow> [v] | None \<Rightarrow> [])"
| "entry_id j = []"

definition listed_ids :: "world \<Rightarrow> string \<Rightarrow> json list" where
  "listed_ids W bd = concat (map entry_id (entries W bd))"

subsection \<open>Stages of a run\<close>

text \<open>
  The checklist has ten stages. \<open>emits W k e\<close> says that stage \<open>k\<close> can leave the
  entry \<open>e\<close> in the trace: which requests it sends and which commands it runs.
\<close>

datatype stage =
  Banner | Docker | Reach | Models | Download | Deploy | Pipeline | Index | Restart | Logs

fun emits :: "world \<Rightarrow> stage \<Rightarrow> event \<Rightarrow> bool" where
  "emits W k (Print m) = True"
| "emits W k (Sleep n) =
     (fix_mode W \<and> (k = Download \<and> n = 10 \<or> k = Deploy \<and> n = 10 \<or> k = Restart \<and> n = 20))"
| "emits W k (Run cmd took rc out err) =
     (k = Docker \<and> cmd = docker_ps \<or>
      k = Restart \<and> fix_mode W \<and> (cmd = compose_restart W \<or> cmd = docker_restart W) \<or>
      k = Logs \<and> cmd = docker_logs W)"
| "emits W k (Http m url a p took status body) =
     (a = auth W \<and>
      (case k of
         Reach \<Rightarrow>
           m = GET \<and> p = None \<and>
           (url = ES_URL W @ ''/'' \<or> url = ES_URL W @ ''/_license?pretty'')
       | Models \<Rightarrow>
           m = GET \<and> p = None \<and> url = ES_URL W @ ''/_ml/trained_models?size=200&pretty''
       | Download \<Rightarrow>
           fix_mode W \<and> p = None \<and>
           (m = POST \<and> url = model_url W @ ''/_download?pretty'' \<or>
            m = GET \<and> url = model_url W @ ''?pretty'')
       | Deploy \<Rightarrow>
           fix_mode W \<and> m = POST \<and> p = Some start_payload \<and>
             url = model_url W @ ''/deployment/_start?pretty'' \<or>
           m = GET \<and> p = None \<and> url = model_url W @ ''/_stats?pretty''
       | Pipeline \<Rightarrow>
           url = ES_URL W @ ''/_ingest/pipeline/'' @ PIPELINE_ID W @ ''?pretty'' \<and>
           (fix_mode W \<and> m = PUT \<and> p = Some (pipeline_payload W) \<or>
            \<not> fix_mode W \<and> m = GET \<and> p = None)
       | Index \<Rightarrow>
           fix_mode W \<and> url = ES_URL W @ ''/'' @ INDEX W @ ''?pretty'' \<and>
           (m = DELETE \<and> p = None \<or> m = PUT \<and> p = Some index_payload)
       | Restart \<Rightarrow>
           m = GET \<and> p = None \<and> url = ES_URL W @ ''/'' @ INDEX W @ ''/_count?pretty''
       | _ \<Rightarrow> False))"

text \<open>
  The order of the stages; \<open>since W X e\<close>: the entry \<open>e\<close> can come from stage \<open>X\<close> or a
  later one; \<open>before W X e\<close>: it can come from a stage before \<open>X\<close>.
\<close>

fun stage_no :: "stage \<Rightarrow> nat" where
  "stage_no Banner = 0"
| "stage_no Docker = 1"
| "stage_no Reach = 2"
| "stage_no Models = 3"
| "stage_no Download = 4"
| "stage_no Deploy = 5"
| "stage_no Pipeline = 6"
| "stage_no Index = 7"
| "stage_no Restart = 8"
| "stage_no Logs = 9"

definition since :: "world \<Rightarrow> stage \<Rightarrow> event \<Rightarrow> bool" where
  "since W X e \<longleftrightarrow> (\<exists>k. stage_no X \<le> stage_no k \<and> emits W k e)"

definition before :: "world \<Rightarrow> stage \<Rightarrow> event \<Rightarrow> bool" where
  "before W X e \<longleftrightarrow> (\<exists>k. stage_no k < stage_no X \<and> emits W k e)"

text \<open>The exit codes a stage returns with, and those of a stage and all later ones.\<close>

fun stage_codes :: "world \<Rightarrow> stage \<Rightarrow> int set" where
  "stage_codes W Banner = {}"
| "stage_codes W Docker = {2}"
| "stage_codes W Reach = {3}"
| "stage_codes W Models = {4}"
| "stage_codes W Download = (if fix_mode W then {5, 6} else {})"
| "stage_codes W Deploy = (if fix_mode W then {7, 8} else {})"
| "stage_codes W Pipeline = (if fix_mode W then {9} else {})"
| "stage_codes W Index = (if fix_mode W then {10} else {})"
| "stage_codes W Restart = {}"
| "stage_codes W Logs = {0}"

definition codes_since :: "world \<Rightarrow> stage \<Rightarrow> int \<Rightarrow> bool" where
  "codes_since W X n \<longleftrightarrow> (\<exists>k. stage_no X \<le> stage_no k \<and> n \<in> stage_codes W k)"

text \<open>What a polling loop on a GET probe leaves in the trace.\<close>

definition poll_event :: "string \<Rightarrow> (string \<times> string) option \<Rightarrow> event \<Rightarrow> bool" where
  "poll_event url a e \<longleftrightarrow>
     is_print e \<or> e = Sleep 10 \<or> (\<exists>took status body. e = Http GET url a None took status body)"

text \<open>The state in which the first stage starts, and the rest of \<open>main\<close> from each stage on.\<close>

definition banner :: "world \<Rightarrow> state" where
  "banner W =
     print (''Fix mode: '' @ (if fix_mode W then ''ON (--fix)'' else ''OFF (read-only)''))
       (heading ''0) Mode'' \<lparr>trace = [], now = clock0 W\<rparr>)"

definition from_logs :: "world \<Rightarrow> state \<Rightarrow> (unit res \<times> state) option" where
  "from_logs W st =
     Some (Exit 0,
           ok ''If count is still 0, paste sections 6 and 7 output only.''
             (heading ''DONE'' (logstash_evidence W st)))"

definition from_restart :: "world \<Rightarrow> state \<Rightarrow> (unit res \<times> state) option" where
  "from_restart W st = thn (Some (restart_and_count W st)) (\<lambda>u. from_logs W)"

definition from_index :: "world \<Rightarrow> state \<Rightarrow> (unit res \<times> state) option" where
  "from_index W st = thn (Some (index_mapping W st)) (\<lambda>u. from_restart W)"

definition from_pipeline :: "world \<Rightarrow> state \<Rightarrow> (unit res \<times> state) option" where
  "from_pipeline W st = thn (Some (ingest_pipeline W st)) (\<lambda>u. from_index W)"

definition from_deploy :: "world \<Rightarrow> state \<Rightarrow> (unit res \<times> state) option" where
  "from_deploy W st = thn (ensure_deployment W st) (\<lambda>u. from_pipeline W)"

definition from_download :: "world \<Rightarrow> bool \<Rightarrow> state \<Rightarrow> (unit res \<times> state) option" where
  "from_download W have_elser st =
     thn (if fix_mode W \<and> \<not> have_elser then download_model W st else Some (Val (), st))
       (\<lambda>u. from_deploy W)"

definition from_models :: "world \<Rightarrow> state \<Rightarrow> (unit res \<times> state) option" where
  "from_models W st = thn (Some (list_models W st)) (from_download W)"

definition from_reach :: "world \<Rightarrow> state \<Rightarrow> (unit res \<times> state) option" where
  "from_reach W st = thn (Some (reachability W st)) (\<lambda>u. from_models W)"

definition from_docker :: "world \<Rightarrow> state \<Rightarrow> (unit res \<times> state) option" where
  "from_docker W st = thn (Some (docker_status W st)) (\<lambda>u. from_reach W)"

text \<open>
  \<open>gets_to W X f\<close>: the run of \<open>main\<close> either has returned in a stage before \<open>X\<close>, or it
  arrives at stage \<open>X\<close> in some state and goes on from there as \<open>f\<close> says; in both
  cases the trace so far holds entries of the stages before \<open>X\<close> only.
\<close>

definition codes_before :: "world \<Rightarrow> stage \<Rightarrow> int \<Rightarrow> bool" where
  "codes_before W X n \<longleftrightarrow> (\<exists>k. stage_no k < stage_no X \<and> n \<in> stage_codes W k)"

definition gets_to :: "world \<Rightarrow> stage \<Rightarrow> (state \<Rightarrow> (unit res \<times> state) option) \<Rightarrow> bool" where
  "gets_to W X f \<longleftrightarrow>
     (\<exists>n s. main W = Some (Exit n, s) \<and> codes_before W X n \<and> list_all (before W X) (trace s)) \<or>
     (\<exists>sX. main W = f sX \<and> list_all (before W X) (trace sX))"

subsection \<open>Read-only entries\<close>

text \<open>
  What a read-only run may leave in the trace: GET requests without a body, the two docker
  commands that only read (\<open>docker ps\<close>, \<open>docker logs\<close>) and output. It never sleeps.
\<close>

fun read_only_event :: "world \<Rightarrow> event \<Rightarrow> bool" where
  "read_only_event W (Http m url a p took status body) = (m = GET \<and> p = None)"
| "read_only_event W (Run cmd took rc out err) = (cmd = docker_ps \<or> cmd = docker_logs W)"
| "read_only_event W (Sleep n) = False"
| "read_only_event W (Print m) = True"

subsection \<open>Runs with calls that raise\<close>





subsection \<open>Worlds to run the script in\<close>

text \<open>
  \<open>quiet_world\<close>: no \<open>--fix\<close>, an empty environment, docker and the server answer at once,
  every request gets \<open>200 {}\<close> except the deployment statistics, which get
  \<open>503 deployment busy\<close>; no body parses as JSON.
\<close>

definition quiet_world :: world where
  "quiet_world =
     \<lparr>argv = [''check_stack.py''],
      getenv = (\<lambda>name. None),
      clock0 = 0,
      http_reply = (\<lambda>tr m url a p.
         if url = ''http://localhost:9200/_ml/trained_models/.elser_model_2/_stats?pretty''
         then (0, 503, ''deployment busy'') else (0, 200, ''{}'')),
      run_reply = (\<lambda>tr cmd. (0, 0, ''up'', [])),
      json_loads = (\<lambda>s. None),
      json_dumps = (\<lambda>j. []),
      py_str = (\<lambda>j. []),
      str_strip = (\<lambda>s. s),
      str_lower = (\<lambda>s. s),
      str_splitlines = (\<lambda>s. [s])\<rparr>"

text \<open>\<open>locked_world\<close>: as \<open>quiet_world\<close>, but the server answers every request with 401.\<close>

definition locked_world :: world where
  "locked_world = quiet_world\<lparr>http_reply := (\<lambda>tr m url a p. (0, 401, ''unauthorized''))\<rparr>"

text \<open>
  \<open>fix_world\<close>: run with \<open>--fix\<close>. The model listing names the target model, every
  POST is answered with 409, the DELETE with 404, the deployment reports \<open>started\<close> at the
  first poll, and both restart commands fail with status 1. Every call takes a second or two.
  \<open>fresh_world\<close> differs in that the model listing is empty and every POST gets 200.
\<close>

definition fix_world :: world where
  "fix_world =
     \<lparr>argv = [''check_stack.py'', ''--fix''],
      getenv = (\<lambda>name. None),
      clock0 = 0,
      http_reply = (\<lambda>tr m url a p.
         if m = POST then (1, 409, ''conflict'')
         else if m = DELETE then (1, 404, ''no such index'')
         else if url = ''http://localhost:9200/_ml/trained_models?size=200&pretty''
              then (1, 200, ''models'')
         else if url = ''http://localhost:9200/_ml/trained_models/.elser_model_2/_stats?pretty''
              then (1, 200, ''stats'')
         else (1, 200, ''{}'')),
      run_reply = (\<lambda>tr cmd.
         if cmd = [''docker'', ''compose'', ''restart'', ''ls01''] \<or>
            cmd = [''docker'', ''restart'', ''ls01'']
         then (2, 1, [], ''no such service'') else (0, 0, ''up'', [])),
      json_loads = (\<lambda>s.
         if s = ''models''
         then Some (JObj [(''trained_model_configs'',
                           JArr [JObj [(''model_id'', JStr ''.elser_model_2'')]])])
         else if s = ''stats''
         then Some (JObj [(''trained_model_stats'',
                           JArr [JObj [(''deployment_stats'',
                                        JObj [(''state'', JStr ''started'')])]])])
         else None),
      json_dumps = (\<lambda>j. ''json''),
      py_str = (\<lambda>j. ''value''),
      str_strip = (\<lambda>s. s),
      str_lower = (\<lambda>s. s),
      str_splitlines = (\<lambda>s. [s])\<rparr>"

definition fresh_world :: world where
  "fresh_world =
     fix_world
       \<lparr>http_reply := (\<lambda>tr m url a p.
          if url = ''http://localhost:9200/_ml/trained_models/.elser_model_2/_stats?pretty''
          then (1, 200, ''stats'') else (1, 200, ''{}'')),
        json_loads := (\<lambda>s.
          if s = ''stats''
          then Some (JObj [(''trained_model_stats'',
                            JArr [JObj [(''deployment_stats'',
                                         JObj [(''state'', JStr ''started'')])]])])
          else Some (JObj []))\<rparr>"

text \<open>
  \<open>refused_world\<close>: as \<open>fix_world\<close>, but every POST is answered with 500.
  \<open>full_disk_world\<close>: as \<open>fix_world\<close>, but the PUT that creates the index is
  answered with 500.
\<close>

definition refused_world :: world where
  "refused_world =
     fix_world
       \<lparr>http_reply := (\<lambda>tr m url a p.
          if m = POST then (1, 500, ''refused'') else http_reply fix_world tr m url a p)\<rparr>"

definition full_disk_world :: world where
  "full_disk_world =
     fix_world
       \<lparr>http_reply := (\<lambda>tr m url a p.
          if m = PUT \<and> url = ''http://localhost:9200/oracle_elser_index?pretty''
          then (1, 500, ''disk full'') else http_reply fix_world tr m url a p)\<rparr>"

text \<open>
  \<open>calm_world\<close>: as \<open>quiet_world\<close>, but the deployment statistics come back with 200 and
  report the state \<open>started\<close>.
\<close>

definition calm_world :: world where
  "calm_world =
     quiet_world
       \<lparr>http_reply := (\<lambda>tr m url a p.
          if url = ''http://localhost:9200/_ml/trained_models/.elser_model_2/_stats?pretty''
          then (0, 200, ''stats'') else (0, 200, ''{}'')),
        json_loads := (\<lambda>s.
          if s = ''stats''
          then Some (JObj [(''trained_model_stats'',
                            JArr [JObj [(''deployment_stats'',
                                         JObj [(''state'', JStr ''started'')])]])])
          else None)\<rparr>"

text \<open>
  \<open>stocked_world\<close>: as \<open>fix_world\<close>, but the listing names two models, the target
  second. \<open>odd_world\<close>: as \<open>fresh_world\<close>, but the listing names the target and has a
  second entry that is a number.
\<close>

definition stocked_world :: world where
  "stocked_world =
     fix_world
       \<lparr>json_loads := (\<lambda>s.
          if s = ''models''
          then Some (JObj [(''trained_model_configs'',
                            JArr [JObj [(''model_id'', JStr ''.multilingual-e5-small'')],
                                  JObj [(''model_id'', JStr ''.elser_model_2'')]])])
          else json_loads fix_world s)\<rparr>"

definition odd_world :: world where
  "odd_world =
     fresh_world
       \<lparr>http_reply := (\<lambda>tr m url a p.
          if url = ''http://localhost:9200/_ml/trained_models?size=200&pretty''
          then (1, 200, ''models'') else http_reply fresh_world tr m url a p),
        json_loads := (\<lambda>s.
          if s = ''models''
          then Some (JObj [(''trained_model_configs'',
                            JArr [JObj [(''model_id'', JStr ''.elser_model_2'')], JInt 5])])
          else json_loads fresh_world s)\<rparr>"




section \<open>Basic facts\<close>

lemma trace_print [simp]: "trace (print m s) = trace s @ [Print m]"
  and now_print [simp]: "now (print m s) = now s"
  and more_print [simp]: "state.more (print m s) = state.more s"
  by (simp_all add: print_def)

lemma trace_msgs [simp]:
  "trace (ok m s) = trace s @ [Print (''[OK] '' @ m)]"
  "trace (warn m s) = trace s @ [Print (''[WARN] '' @ m)]"
  "trace (fail m s) = trace s @ [Print (''[FAIL] '' @ m)]"
  "trace (heading t s) = trace s @ heading_ev t"
  by (simp_all add: ok_def warn_def fail_def heading_def heading_ev_def)

lemma now_msgs [simp]:
  "now (ok m s) = now s" "now (warn m s) = now s" "now (fail m s) = now s"
  "now (heading t s) = now s"
  by (simp_all add: ok_def warn_def fail_def heading_def)

lemma more_msgs [simp]:
  "state.more (ok m s) = state.more s" "state.more (warn m s) = state.more s"
  "state.more (fail m s) = state.more s" "state.more (heading t s) = state.more s"
  by (simp_all add: ok_def warn_def fail_def heading_def)

lemma sleep_nonneg [simp]:
  "0 \<le> n \<Longrightarrow>
     sleep n s = (Val (), s\<lparr>trace := trace s @ [Sleep n], now := now s + real_of_int n\<rparr>)"
  by (simp add: sleep_def)

lemma sleep_neg [simp]: "n < 0 \<Longrightarrow> sleep n s = (Raise ''ValueError'', s)"
  by (simp add: sleep_def)

lemma polls_Suc_ready: "ready_at desc fn s (Suc i) st = ready_at desc fn s i (miss desc fn s st)"
  by (simp add: ready_at_def)

lemma miss_nonneg:
  "0 \<le> s \<Longrightarrow> fn st = ((b, info), st1) \<Longrightarrow>
     miss desc fn s st = (print (''[WAIT] '' @ desc @ '': '' @ info) st1)\<lparr>trace := trace st1 @ [Print (''[WAIT] '' @ desc @ '': '' @ info), Sleep s], now := now st1 + real_of_int s\<rparr>"
  by (simp add: miss_def)

lemma wait_loop_hit:
  assumes "0 \<le> s"
  shows "(\<forall>i<j. \<not> ready_at desc fn s i st) \<Longrightarrow> ready_at desc fn s j st \<Longrightarrow>
         (\<forall>i\<le>j. now (polls desc fn s i st) - t0 < real_of_int T) \<Longrightarrow>
         wait_loop desc fn T s t0 st =
           Some (Val True, ok (desc @ '': ready'') (snd (fn (polls desc fn s j st))))"
proof (induction j arbitrary: st)
  case 0
  then have "now st - t0 < real_of_int T" and "fst (fst (fn st))"
    by (simp_all add: ready_at_def)
  moreover obtain b info st1 where "fn st = ((b, info), st1)" by (metis prod.exhaust)
  ultimately show ?case
    by (subst wait_loop.simps) simp
next
  case (Suc j)
  have early: "now st - t0 < real_of_int T"
    using Suc.prems(3) by (metis le0 polls.simps(1))
  have notyet: "\<not> fst (fst (fn st))"
    using Suc.prems(1) by (metis polls.simps(1) ready_at_def zero_less_Suc)
  obtain b info st1 where f: "fn st = ((b, info), st1)" by (metis prod.exhaust)
  with notyet have nb: "\<not> b" by simp
  have step: "wait_loop desc fn T s t0 st = wait_loop desc fn T s t0 (miss desc fn s st)"
    using early nb f assms
    by (subst wait_loop.simps) (simp add: miss_def)
  have "wait_loop desc fn T s t0 (miss desc fn s st) =
          Some (Val True, ok (desc @ '': ready'') (snd (fn (polls desc fn s j (miss desc fn s st)))))"
  proof (rule Suc.IH)
    show "\<forall>i<j. \<not> ready_at desc fn s i (miss desc fn s st)"
      using Suc.prems(1) by (auto simp: polls_Suc_ready [symmetric])
    show "ready_at desc fn s j (miss desc fn s st)"
      using Suc.prems(2) by (simp add: polls_Suc_ready)
    show "\<forall>i\<le>j. now (polls desc fn s i (miss desc fn s st)) - t0 < real_of_int T"
    proof (intro allI impI)
      fix i assume "i \<le> j"
      then have "Suc i \<le> Suc j" by simp
      with Suc.prems(3) have "now (polls desc fn s (Suc i) st) - t0 < real_of_int T" by blast
      then show "now (polls desc fn s i (miss desc fn s st)) - t0 < real_of_int T" by simp
    qed
  qed
  with step show ?case by simp
qed

lemma wait_loop_false_late:
  assumes "wait_loop desc fn T s t0 st = Some y"
  shows "y = (Val False, s') \<longrightarrow> real_of_int T \<le> now s' - t0"
proof (rule wait_loop.raw_induct
         [where P = "\<lambda>desc fn T s t0 st y. y = (Val False, s') \<longrightarrow> real_of_int T \<le> now s' - t0",
          OF _ assms])
  fix wl :: "string \<Rightarrow> ('a state_scheme \<Rightarrow> (bool \<times> string) \<times> 'a state_scheme) \<Rightarrow> int \<Rightarrow> int \<Rightarrow> real
     \<Rightarrow> 'a state_scheme \<Rightarrow> (bool res \<times> 'a state_scheme) option"
  fix desc fn T s t0 st and y :: "bool res \<times> 'a state_scheme"
  assume IH: "\<And>desc fn T s t0 st y. wl desc fn T s t0 st = Some y \<Longrightarrow>
                y = (Val False, s') \<longrightarrow> real_of_int T \<le> now s' - t0"
    and body: "(if now st - t0 < real_of_int T then
        (case fn st of
           ((ok_flag, info), st1) \<Rightarrow>
             if ok_flag then Some (Val True, ok (desc @ '': ready'') st1)
             else
               (case sleep s (print (''[WAIT] '' @ desc @ '': '' @ info) st1) of
                  (Val u, st2) \<Rightarrow> wl desc fn T s t0 st2
                | (Exit n, st2) \<Rightarrow> Some (Exit n, st2)
                | (Raise e, st2) \<Rightarrow> Some (Raise e, st2)))
      else Some (Val False,
                 fail (desc @ '': timed out after '' @ str_int T @ ''s'') st)) = Some y"
  show "y = (Val False, s') \<longrightarrow> real_of_int T \<le> now s' - t0"
  proof (cases "now st - t0 < real_of_int T")
    case False
    with body have "y = (Val False, s') \<longrightarrow> now s' = now st" by auto
    with False show ?thesis by auto
  next
    case True
    obtain b info st1 where f: "fn st = ((b, info), st1)" by (metis prod.exhaust)
    show ?thesis
    proof (cases b)
      case True
      with body \<open>now st - t0 < real_of_int T\<close> f show ?thesis by auto
    next
      case False
      obtain r st2 where sl: "sleep s (print (''[WAIT] '' @ desc @ '': '' @ info) st1) = (r, st2)"
        by (metis prod.exhaust)
      show ?thesis
        using body \<open>now st - t0 < real_of_int T\<close> f False sl IH
        by (cases r) auto
    qed
  qed
qed

lemma miss_eq:
  "0 \<le> s \<Longrightarrow> fn st = ((b, info), st1) \<Longrightarrow>
     miss desc fn s st =
       st1\<lparr>trace := trace st1 @ [Print (''[WAIT] '' @ desc @ '': '' @ info), Sleep s],
           now := now st1 + real_of_int s\<rparr>"
  by (simp add: miss_def print_def)

lemma now_miss: "0 \<le> s \<Longrightarrow> now (miss desc fn s st) = now (snd (fn st)) + real_of_int s"
  by (cases "fn st") (auto simp: miss_eq)

lemma wait_loop_miss:
  "now st - t0 < real_of_int T \<Longrightarrow> \<not> fst (fst (fn st)) \<Longrightarrow> 0 \<le> s \<Longrightarrow>
     wait_loop desc fn T s t0 st = wait_loop desc fn T s t0 (miss desc fn s st)"
  by (subst wait_loop.simps) (auto simp: miss_def split: prod.splits)

lemma wait_loop_never:
  assumes s: "0 < s" and mono: "\<And>z. now z \<le> now (snd (fn z))"
  shows "(\<forall>i. \<not> ready_at desc fn s i st) \<Longrightarrow>
         \<exists>n. wait_loop desc fn T s t0 st =
                Some (Val False,
                      fail (desc @ '': timed out after '' @ str_int T @ ''s'') (polls desc fn s n st))
              \<and> (\<forall>i<n. now (polls desc fn s i st) - t0 < real_of_int T)
              \<and> real_of_int T \<le> now (polls desc fn s n st) - t0"
proof (induction "nat \<lceil>real_of_int T - (now st - t0)\<rceil>" arbitrary: st rule: less_induct)
  case less
  show ?case
  proof (cases "now st - t0 < real_of_int T")
    case False
    then have "wait_loop desc fn T s t0 st =
                 Some (Val False, fail (desc @ '': timed out after '' @ str_int T @ ''s'') st)"
      by (subst wait_loop.simps) simp
    with False show ?thesis by (intro exI [of _ 0]) simp
  next
    case True
    let ?st' = "miss desc fn s st"
    have notyet: "\<not> fst (fst (fn st))"
      using less.prems by (metis polls.simps(1) ready_at_def)
    have step: "wait_loop desc fn T s t0 st = wait_loop desc fn T s t0 ?st'"
      using True notyet s by (simp add: wait_loop_miss)
    have later: "now st + 1 \<le> now ?st'"
    proof -
      have "real_of_int 1 \<le> real_of_int s" using s by simp
      with mono [of st] s show ?thesis by (simp add: now_miss)
    qed
    have "\<lceil>real_of_int T - (now ?st' - t0)\<rceil> \<le> \<lceil>real_of_int T - (now st - t0) - 1\<rceil>"
      using later by (intro ceiling_mono) simp
    moreover have "0 < \<lceil>real_of_int T - (now st - t0)\<rceil>"
      using True by simp
    ultimately have smaller:
      "nat \<lceil>real_of_int T - (now ?st' - t0)\<rceil> < nat \<lceil>real_of_int T - (now st - t0)\<rceil>"
      by simp
    have never': "\<forall>i. \<not> ready_at desc fn s i ?st'"
      using less.prems by (metis polls.simps(2) ready_at_def)
    from less.hyps [OF smaller never'] obtain n where
      n: "wait_loop desc fn T s t0 ?st' =
            Some (Val False,
                  fail (desc @ '': timed out after '' @ str_int T @ ''s'') (polls desc fn s n ?st'))"
         "\<forall>i<n. now (polls desc fn s i ?st') - t0 < real_of_int T"
         "real_of_int T \<le> now (polls desc fn s n ?st') - t0"
      by blast
    have "\<forall>i<Suc n. now (polls desc fn s i st) - t0 < real_of_int T"
    proof (intro allI impI)
      fix i assume "i < Suc n"
      then show "now (polls desc fn s i st) - t0 < real_of_int T"
        using True n(2) by (cases i) simp_all
    qed
    with step n(1, 3) show ?thesis by (intro exI [of _ "Suc n"]) simp
  qed
qed

lemma polls_now_instant:
  assumes "\<And>z. now (snd (fn z)) = now z" and "0 \<le> s"
  shows "now (polls desc fn s n st) = now st + real n * real_of_int s"
proof (induction n arbitrary: st)
  case 0
  show ?case by simp
next
  case (Suc n)
  show ?case using assms by (simp add: Suc.IH now_miss algebra_simps)
qed

lemma polls_early_instant:
  assumes inst: "\<And>z. now (snd (fn z)) = now z" and s: "0 \<le> s"
    and k: "real_of_int (int (Suc j) * s) < real_of_int T" and i: "i \<le> j"
  shows "now (polls desc fn s i st) - now st < real_of_int T"
proof -
  have "real i * real_of_int s \<le> real (Suc j) * real_of_int s"
    using i s by (intro mult_right_mono) simp_all
  also have "\<dots> < real_of_int T" using k by simp
  finally show ?thesis using inst s by (simp add: polls_now_instant)
qed

text \<open>
  Claim C2, as the code has it. The loop is bound by a deadline on the wall clock, not by
  a number of polls, and the time the predicate itself takes counts against the deadline.
  With a positive sleep length:
  \<^item> if the predicate answers ready for the first time at invocation \<open>j + 1\<close> and each
    of these invocations starts less than \<open>timeout_s\<close> seconds after the call, the loop
    returns success in the state that invocation \<open>j + 1\<close> left (so the predicate was
    invoked \<open>j + 1\<close> times and never again); \<open>(j + 1) * sleep_s < timeout_s\<close> is
    enough for that when the predicate takes no time;
  \<^item> whenever the loop returns failure, at least \<open>timeout_s\<close> seconds have passed;
  \<^item> if the predicate never answers ready (and the clock does not run backwards while it
    runs), the loop does return failure; when the predicate takes no time and the timeout
    is positive, it does so less than one sleep length after the deadline.
\<close>

theorem wait_until_deadline:
  fixes fn :: "'a state_scheme \<Rightarrow> (bool \<times> string) \<times> 'a state_scheme"
  assumes "0 < sleep_s"
  shows
    "((\<forall>i<j. \<not> ready_at desc fn sleep_s i st) \<and> ready_at desc fn sleep_s j st \<and>
      ((\<forall>i\<le>j. now (polls desc fn sleep_s i st) - now st < real_of_int timeout_s) \<or>
       (\<forall>z. now (snd (fn z)) = now z) \<and> int (Suc j) * sleep_s < timeout_s)
      \<longrightarrow> wait_until desc fn timeout_s sleep_s st =
            Some (Val True, ok (desc @ '': ready'') (snd (fn (polls desc fn sleep_s j st)))))
   \<and> (\<forall>s'. wait_until desc fn timeout_s sleep_s st = Some (Val False, s')
            \<longrightarrow> real_of_int timeout_s \<le> now s' - now st)
   \<and> ((\<forall>i. \<not> ready_at desc fn sleep_s i st) \<and> (\<forall>z. now z \<le> now (snd (fn z)))
      \<longrightarrow> (\<exists>s'. wait_until desc fn timeout_s sleep_s st = Some (Val False, s')))
   \<and> ((\<forall>i. \<not> ready_at desc fn sleep_s i st) \<and> (\<forall>z. now (snd (fn z)) = now z) \<and> 0 < timeout_s
      \<longrightarrow> (\<exists>s'. wait_until desc fn timeout_s sleep_s st = Some (Val False, s') \<and>
                now s' - now st < real_of_int timeout_s + real_of_int sleep_s))"
proof (intro conjI impI allI)
  assume h: "(\<forall>i<j. \<not> ready_at desc fn sleep_s i st) \<and> ready_at desc fn sleep_s j st \<and>
      ((\<forall>i\<le>j. now (polls desc fn sleep_s i st) - now st < real_of_int timeout_s) \<or>
       (\<forall>z. now (snd (fn z)) = now z) \<and> int (Suc j) * sleep_s < timeout_s)"
  have early: "\<forall>i\<le>j. now (polls desc fn sleep_s i st) - now st < real_of_int timeout_s"
  proof (intro allI impI)
    fix i assume "i \<le> j"
    from h consider "\<forall>i\<le>j. now (polls desc fn sleep_s i st) - now st < real_of_int timeout_s"
      | "(\<forall>z. now (snd (fn z)) = now z) \<and> int (Suc j) * sleep_s < timeout_s" by blast
    then show "now (polls desc fn sleep_s i st) - now st < real_of_int timeout_s"
    proof cases
      case 1
      with \<open>i \<le> j\<close> show ?thesis by blast
    next
      case 2
      then have "real_of_int (int (Suc j) * sleep_s) < real_of_int timeout_s"
        by (simp only: of_int_less_iff)
      with 2 assms \<open>i \<le> j\<close> show ?thesis
        by (intro polls_early_instant [where j = j]) simp_all
    qed
  qed
  from assms h early show "wait_until desc fn timeout_s sleep_s st =
      Some (Val True, ok (desc @ '': ready'') (snd (fn (polls desc fn sleep_s j st))))"
    unfolding wait_until_def by (intro wait_loop_hit) simp_all
next
  fix s' assume "wait_until desc fn timeout_s sleep_s st = Some (Val False, s')"
  then show "real_of_int timeout_s \<le> now s' - now st"
    unfolding wait_until_def using wait_loop_false_late by blast
next
  assume h: "(\<forall>i. \<not> ready_at desc fn sleep_s i st) \<and> (\<forall>z. now z \<le> now (snd (fn z)))"
  then show "\<exists>s'. wait_until desc fn timeout_s sleep_s st = Some (Val False, s')"
    unfolding wait_until_def
    using wait_loop_never [OF assms, of fn desc st timeout_s "now st"] by blast
next
  assume h: "(\<forall>i. \<not> ready_at desc fn sleep_s i st) \<and> (\<forall>z. now (snd (fn z)) = now z) \<and> 0 < timeout_s"
  then have inst: "\<And>z. now (snd (fn z)) = now z" by blast
  then have mono: "\<And>z. now z \<le> now (snd (fn z))" by simp
  from wait_loop_never [OF assms mono, of desc st timeout_s "now st"] h
  obtain n where n:
    "wait_loop desc fn timeout_s sleep_s (now st) st =
       Some (Val False,
             fail (desc @ '': timed out after '' @ str_int timeout_s @ ''s'')
               (polls desc fn sleep_s n st))"
    "\<forall>i<n. now (polls desc fn sleep_s i st) - now st < real_of_int timeout_s"
    "real_of_int timeout_s \<le> now (polls desc fn sleep_s n st) - now st"
    by blast
  have s0: "0 \<le> sleep_s" using assms by simp
  have "n \<noteq> 0" using n(3) h by (cases n) auto
  then obtain m where m: "n = Suc m" by (cases n) auto
  with n(2) have "now (polls desc fn sleep_s m st) - now st < real_of_int timeout_s" by simp
  moreover have "now (polls desc fn sleep_s m st) = now st + real m * real_of_int sleep_s"
    and "now (polls desc fn sleep_s n st) = now st + real n * real_of_int sleep_s"
    using inst s0 by (rule polls_now_instant)+
  ultimately have "now (polls desc fn sleep_s n st) - now st < real_of_int timeout_s + real_of_int sleep_s"
    using m by (simp add: algebra_simps)
  with n(1) show "\<exists>s'. wait_until desc fn timeout_s sleep_s st = Some (Val False, s') \<and>
                now s' - now st < real_of_int timeout_s + real_of_int sleep_s"
    unfolding wait_until_def by simp
qed

lemma polls_numeral [simp]:
  "polls desc fn s (numeral n) st = polls desc fn s (pred_numeral n) (miss desc fn s st)"
  by (simp add: numeral_eq_Suc)

lemma late_run:
  "\<not> ready_at ''d'' late_probe 10 0 idle" "\<not> ready_at ''d'' late_probe 10 1 idle"
  "ready_at ''d'' late_probe 10 2 idle"
  by (simp_all add: ready_at_def miss_def late_probe_def idle_def)

lemma never_run: "\<not> ready_at desc never_probe s i st"
  by (simp add: ready_at_def never_probe_def)

lemma never_eval:
  "wait_until ''d'' never_probe 25 10 idle =
     Some (Val False,
           \<lparr>trace = [Print ''[WAIT] d: starting'', Sleep 10,
                     Print ''[WAIT] d: starting'', Sleep 10,
                     Print ''[WAIT] d: starting'', Sleep 10,
                     Print ''[FAIL] d: timed out after 25s''],
            now = 30\<rparr>)"
  by (simp add: wait_until_def wait_loop.simps never_probe_def idle_def print_def fail_def
        str_int_def digits.simps)

text \<open>
  The witness runs the loop on \<open>late_probe\<close> (ready at its third invocation, 600 seconds
  allowed, 10 seconds between polls) and on \<open>never_probe\<close> (25 seconds allowed: three
  polls, failure after 30 seconds).
\<close>

theorem wait_until_deadline_witness:
  "0 < (10::int)
   \<and> \<not> ready_at ''d'' late_probe 10 0 idle \<and> \<not> ready_at ''d'' late_probe 10 1 idle
   \<and> ready_at ''d'' late_probe 10 2 idle
   \<and> (\<forall>z. now (snd (late_probe z)) = now z) \<and> int (Suc 2) * 10 < 600
   \<and> wait_until ''d'' late_probe 600 10 idle =
       Some (Val True, ok (''d'' @ '': ready'') (snd (late_probe (polls ''d'' late_probe 10 2 idle))))
   \<and> (\<forall>i. \<not> ready_at ''d'' never_probe 10 i idle)
   \<and> (\<forall>z. now (snd (never_probe z)) = now z) \<and> 0 < (25::int)
   \<and> wait_until ''d'' never_probe 25 10 idle =
       Some (Val False,
             \<lparr>trace = [Print ''[WAIT] d: starting'', Sleep 10,
                       Print ''[WAIT] d: starting'', Sleep 10,
                       Print ''[WAIT] d: starting'', Sleep 10,
                       Print ''[FAIL] d: timed out after 25s''],
              now = 30\<rparr>)
   \<and> (\<exists>s'. wait_until ''d'' never_probe 25 10 idle = Some (Val False, s') \<and>
             real_of_int 25 \<le> now s' - now idle \<and>
             now s' - now idle < real_of_int 25 + real_of_int 10)"
proof -
  have pos: "0 < (10::int)" by simp
  have inst: "\<forall>z. now (snd (late_probe z)) = now z" by (simp add: late_probe_def)
  have inst': "\<forall>z. now (snd (never_probe z)) = now z" by (simp add: never_probe_def)
  have before: "\<forall>i<2. \<not> ready_at ''d'' late_probe 10 i idle"
    using late_run by (simp add: less_Suc_eq numeral_2_eq_2)
  note hit = wait_until_deadline [OF pos, of 2 "''d''" late_probe idle 600]
  note never = wait_until_deadline [OF pos, of 0 "''d''" never_probe idle 25]
  from hit before late_run(3) inst
  have 1: "wait_until ''d'' late_probe 600 10 idle =
       Some (Val True, ok (''d'' @ '': ready'') (snd (late_probe (polls ''d'' late_probe 10 2 idle))))"
    by simp
  from never never_run inst'
  obtain s' where 2: "wait_until ''d'' never_probe 25 10 idle = Some (Val False, s')"
      "now s' - now idle < real_of_int 25 + real_of_int 10"
    by auto
  from never 2(1) have 3: "real_of_int 25 \<le> now s' - now idle" by blast
  from pos late_run inst 1 never_run inst' never_eval 2 3 show ?thesis
    by (intro conjI exI [of _ s']) simp_all
qed

text \<open>
  The claim as the specification words it asks only for \<open>k * sleep_s < timeout_s\<close>.
  \<open>slow_probe\<close> is ready at its second invocation, and \<open>2 * 1 < 10\<close>, yet the loop
  gives up after one invocation: that invocation took 20 seconds, the clock reads 21 when
  the loop tests it again, and the 10 seconds are over.
\<close>

theorem wait_until_slow_predicate_counterexample:
  "0 < (10::int) \<and> 0 < (1::int)
   \<and> \<not> ready_at ''d'' slow_probe 1 0 idle \<and> ready_at ''d'' slow_probe 1 1 idle
   \<and> (2::int) * 1 < 10
   \<and> wait_until ''d'' slow_probe 10 1 idle =
       Some (Val False,
             \<lparr>trace = [Print ''[WAIT] d: starting'', Sleep 1,
                       Print ''[FAIL] d: timed out after 10s''],
              now = 21\<rparr>)"
  by (simp add: ready_at_def miss_def wait_until_def wait_loop.simps slow_probe_def idle_def
        print_def fail_def str_int_def digits.simps)


text \<open>
  Claim C10. With a timeout of zero or less, \<open>wait_until\<close> fails at once and its result
  does not depend on the predicate, which is never invoked; with a positive timeout the
  first thing it does is invoke the predicate, on the state it was called in.
\<close>

theorem wait_until_timeout_sign:
  "(timeout_s \<le> 0 \<longrightarrow>
      wait_until desc fn timeout_s sleep_s st =
        Some (Val False, fail (desc @ '': timed out after '' @ str_int timeout_s @ ''s'') st)) \<and>
   (0 < timeout_s \<longrightarrow>
      wait_until desc fn timeout_s sleep_s st =
        (case fn st of
           ((ok_flag, info), st1) \<Rightarrow>
             if ok_flag then Some (Val True, ok (desc @ '': ready'') st1)
             else
               (case sleep sleep_s (print (''[WAIT] '' @ desc @ '': '' @ info) st1) of
                  (Val u, st2) \<Rightarrow> wait_loop desc fn timeout_s sleep_s (now st) st2
                | (Exit n, st2) \<Rightarrow> Some (Exit n, st2)
                | (Raise e, st2) \<Rightarrow> Some (Raise e, st2))))"
  unfolding wait_until_def
  by (subst wait_loop.simps, simp)+

text \<open>
  The witness: with a timeout of 0 the slow predicate leaves no mark (the clock still
  reads 0); with a timeout of 5 it was invoked once (the clock reads 21).
\<close>

theorem wait_until_timeout_sign_witness:
  "(0::int) \<le> 0
   \<and> wait_until ''d'' slow_probe 0 1 idle =
       Some (Val False, \<lparr>trace = [Print ''[FAIL] d: timed out after 0s''], now = 0\<rparr>)
   \<and> 0 < (5::int)
   \<and> wait_until ''d'' slow_probe 5 1 idle =
       Some (Val False,
             \<lparr>trace = [Print ''[WAIT] d: starting'', Sleep 1,
                       Print ''[FAIL] d: timed out after 5s''],
              now = 21\<rparr>)"
  using wait_until_timeout_sign [of 0 "''d''" slow_probe 1 idle]
    wait_until_timeout_sign [of 5 "''d''" slow_probe 1 idle]
  by (simp add: wait_loop.simps slow_probe_def idle_def print_def fail_def str_int_def digits.simps)

lemma main_from_docker: "main W = from_docker W (banner W)"
  by (simp add: main_def banner_def Let_def from_docker_def [abs_def] from_reach_def [abs_def]
        from_models_def [abs_def] from_download_def [abs_def] from_deploy_def [abs_def]
        from_pipeline_def [abs_def] from_index_def [abs_def] from_restart_def [abs_def]
        from_logs_def [abs_def])

lemma thn_simps [simp]:
  "thn None k = None"
  "thn (Some (Val a, st)) k = k a st"
  "thn (Some (Exit n, st)) k = Some (Exit n, st)"
  "thn (Some (Raise e, st)) k = Some (Raise e, st)"
  by (simp_all add: thn_def)

lemma prints_heading [simp]: "list_all is_print (heading_ev t)"
  by (simp add: heading_ev_def)

lemma emits_heading [simp]: "list_all (emits W k) (heading_ev t)"
  by (simp add: heading_ev_def)

lemma http_E:
  obtains took status body st' where
    "http W m url a p st = ((status, body), st')"
    "trace st' = trace st @ [Http m url a p took status body]"
    "now st \<le> now st'"
  by (cases "http_reply W (trace st) m url a p") (auto simp: http_def)

lemma run_E:
  obtains took rc out err st' where
    "run W cmd st = ((rc, str_strip W (out @ err)), st')"
    "trace st' = trace st @ [Run cmd took rc out err]"
    "now st \<le> now st'"
  by (cases "run_reply W (trace st) cmd") (auto simp: run_def)

lemma trace_fold_print [simp]:
  "trace (fold (\<lambda>m. print (f m)) ms st) = trace st @ map (\<lambda>m. Print (f m)) ms"
  by (induction ms arbitrary: st) simp_all

lemma now_fold_print [simp]: "now (fold (\<lambda>m. print (f m)) ms st) = now st"
  by (induction ms arbitrary: st) simp_all

lemma prints_map [simp]: "list_all is_print (map (\<lambda>m. Print (f m)) ms)"
  by (induction ms) simp_all

lemma docker_status_E:
  obtains took rc out err ps qs st' where
    "docker_status W st = (if rc \<noteq> 0 then Exit 2 else Val (), st')"
    "trace st' = trace st @ ps @ Run docker_ps took rc out err # qs"
    "list_all is_print ps" "list_all is_print qs" "now st \<le> now st'"
proof -
  obtain took rc out err s1 where
    r: "run W docker_ps (heading ''1) Docker: containers & basic status'' st) =
          ((rc, str_strip W (out @ err)), s1)"
      "trace s1 = trace (heading ''1) Docker: containers & basic status'' st) @
                   [Run docker_ps took rc out err]"
      "now (heading ''1) Docker: containers & basic status'' st) \<le> now s1"
    by (rule run_E)
  show thesis
    by (rule that [where st' = "snd (docker_status W st)" and rc = rc and took = took
          and out = out and err = err
          and ps = "heading_ev ''1) Docker: containers & basic status''"
          and qs = "if rc \<noteq> 0
                    then [Print ''[FAIL] Docker command failed. Is Docker Desktop running?'',
                          Print (str_strip W (out @ err))]
                    else [Print (str_strip W (out @ err))]"])
      (use r in \<open>simp_all add: docker_status_def\<close>)
qed

lemma adds_refl [simp]: "adds P s s"
  by (simp add: adds_def)

lemma adds_trans: "adds P s s' \<Longrightarrow> adds P s' s'' \<Longrightarrow> adds P s s''"
  by (auto simp: adds_def)

lemma adds_print: "adds P s s' \<Longrightarrow> P (Print m) \<Longrightarrow> adds P s (print m s')"
  by (auto simp: adds_def)

lemma wait_loop_total:
  assumes s: "0 < s" and fn: "\<And>z. adds P z (snd (fn z))"
    and pr: "\<And>m. P (Print m)" and sl: "P (Sleep s)"
  shows "\<exists>b st'. wait_loop desc fn T s t0 st = Some (Val b, st') \<and> adds P st st'"
proof (induction "nat \<lceil>real_of_int T - (now st - t0)\<rceil>" arbitrary: st rule: less_induct)
  case less
  show ?case
  proof (cases "now st - t0 < real_of_int T")
    case False
    then have "wait_loop desc fn T s t0 st =
                 Some (Val False, fail (desc @ '': timed out after '' @ str_int T @ ''s'') st)"
      by (subst wait_loop.simps) simp
    moreover have "adds P st (fail (desc @ '': timed out after '' @ str_int T @ ''s'') st)"
      using pr by (simp add: adds_def)
    ultimately show ?thesis by blast
  next
    case True
    obtain b info st1 where f: "fn st = ((b, info), st1)" by (metis prod.exhaust)
    with fn [of st] have a1: "adds P st st1" by simp
    show ?thesis
    proof (cases b)
      case True
      with f \<open>now st - t0 < real_of_int T\<close>
      have "wait_loop desc fn T s t0 st = Some (Val True, ok (desc @ '': ready'') st1)"
        by (subst wait_loop.simps) simp
      moreover have "adds P st (ok (desc @ '': ready'') st1)"
        using a1 pr by (auto simp: adds_def)
      ultimately show ?thesis by blast
    next
      case False
      let ?st' = "miss desc fn s st"
      have step: "wait_loop desc fn T s t0 st = wait_loop desc fn T s t0 ?st'"
        using True False f s by (simp add: wait_loop_miss)
      have m: "?st' = st1\<lparr>trace := trace st1 @ [Print (''[WAIT] '' @ desc @ '': '' @ info), Sleep s],
                             now := now st1 + real_of_int s\<rparr>"
        using f s by (simp add: miss_eq)
      have a2: "adds P st ?st'"
        using a1 pr sl s unfolding m by (auto simp: adds_def)
      have later: "now st + 1 \<le> now ?st'"
      proof -
        have "real_of_int 1 \<le> real_of_int s" using s by simp
        moreover have "now st \<le> now st1" using a1 by (simp add: adds_def)
        ultimately show ?thesis unfolding m by simp
      qed
      have "\<lceil>real_of_int T - (now ?st' - t0)\<rceil> \<le> \<lceil>real_of_int T - (now st - t0) - 1\<rceil>"
        using later by (intro ceiling_mono) simp
      moreover have "0 < \<lceil>real_of_int T - (now st - t0)\<rceil>"
        using True by simp
      ultimately have smaller:
        "nat \<lceil>real_of_int T - (now ?st' - t0)\<rceil> < nat \<lceil>real_of_int T - (now st - t0)\<rceil>"
        by simp
      from less.hyps [OF smaller] obtain b' st' where
        "wait_loop desc fn T s t0 ?st' = Some (Val b', st')" "adds P ?st' st'"
        by blast
      with step a2 show ?thesis by (metis adds_trans)
    qed
  qed
qed

lemma wait_until_pos:
  "0 < timeout_s \<Longrightarrow>
     wait_until desc fn timeout_s sleep_s st =
       (case fn st of
          ((ok_flag, info), st1) \<Rightarrow>
            if ok_flag then Some (Val True, ok (desc @ '': ready'') st1)
            else
              (case sleep sleep_s (print (''[WAIT] '' @ desc @ '': '' @ info) st1) of
                 (Val u, st2) \<Rightarrow> wait_loop desc fn timeout_s sleep_s (now st) st2
               | (Exit n, st2) \<Rightarrow> Some (Exit n, st2)
               | (Raise e, st2) \<Rightarrow> Some (Raise e, st2)))"
  unfolding wait_until_def by (subst wait_loop.simps) simp

lemma wait_until_probe:
  assumes probe: "\<And>z. \<exists>b info z' took status body.
             fn z = ((b, info), z') \<and> trace z' = trace z @ [Http GET url a None took status body]
             \<and> now z \<le> now z'"
  shows "\<exists>b st' took status body rs.
           wait_until desc fn 600 10 st = Some (Val b, st')
           \<and> trace st' = trace st @ Http GET url a None took status body # rs
           \<and> list_all (poll_event url a) rs \<and> now st \<le> now st'"
proof -
  have fn: "\<And>z. adds (poll_event url a) z (snd (fn z))"
  proof -
    fix z
    from probe [of z] show "adds (poll_event url a) z (snd (fn z))"
      by (auto simp: adds_def poll_event_def)
  qed
  from probe [of st] obtain b info st1 took status body where
    f: "fn st = ((b, info), st1)" "trace st1 = trace st @ [Http GET url a None took status body]"
       "now st \<le> now st1"
    by blast
  show ?thesis
  proof (cases b)
    case True
    with f have "wait_until desc fn 600 10 st = Some (Val True, ok (desc @ '': ready'') st1)"
      by (simp add: wait_until_pos)
    with f show ?thesis
      by (intro exI [of _ True] exI [of _ "ok (desc @ '': ready'') st1"] exI [of _ took]
            exI [of _ status] exI [of _ body] exI [of _ "[Print (''[OK] '' @ desc @ '': ready'')]"])
        (simp add: poll_event_def)
  next
    case False
    let ?st2 = "st1\<lparr>trace := trace st1 @ [Print (''[WAIT] '' @ desc @ '': '' @ info), Sleep 10],
                      now := now st1 + real_of_int 10\<rparr>"
    from False f have w: "wait_until desc fn 600 10 st = wait_loop desc fn 600 10 (now st) ?st2"
      by (simp add: wait_until_pos print_def)
    from wait_loop_total [of 10 "poll_event url a" fn desc 600 "now st" ?st2] fn
    obtain b' st' where l: "wait_loop desc fn 600 10 (now st) ?st2 = Some (Val b', st')"
        "adds (poll_event url a) ?st2 st'"
      by (auto simp: poll_event_def)
    from l(2) obtain es where es: "trace st' = trace ?st2 @ es" "list_all (poll_event url a) es"
        "now ?st2 \<le> now st'"
      by (auto simp: adds_def)
    from w l(1) es f show ?thesis
      by (intro exI [of _ b'] exI [of _ st'] exI [of _ took] exI [of _ status] exI [of _ body]
            exI [of _ "Print (''[WAIT] '' @ desc @ '': '' @ info) # Sleep 10 # es"])
        (simp add: poll_event_def)
  qed
qed

lemma deploy_status_probe:
  "\<exists>b info z' took status body.
     deploy_status W z = ((b, info), z') \<and>
     trace z' = trace z @ [Http GET (model_url W @ ''/_stats?pretty'') (auth W) None took status body] \<and>
     now z \<le> now z'"
proof -
  obtain took status body z' where
    "http W GET (model_url W @ ''/_stats?pretty'') (auth W) None z = ((status, body), z')"
    "trace z' = trace z @ [Http GET (model_url W @ ''/_stats?pretty'') (auth W) None took status body]"
    "now z \<le> now z'"
    by (rule http_E)
  then show ?thesis
    by (auto simp: deploy_status_def split: option.splits)
qed

lemma download_ready_probe:
  "\<exists>b info z' took status body.
     download_ready W z = ((b, info), z') \<and>
     trace z' = trace z @ [Http GET (model_url W @ ''?pretty'') (auth W) None took status body] \<and>
     now z \<le> now z'"
proof -
  obtain took status body z' where
    "http W GET (model_url W @ ''?pretty'') (auth W) None z = ((status, body), z')"
    "trace z' = trace z @ [Http GET (model_url W @ ''?pretty'') (auth W) None took status body]"
    "now z \<le> now z'"
    by (rule http_E)
  then show ?thesis
    by (auto simp: download_ready_def split: option.splits)
qed

lemma reachability_E:
  obtains took status body ps qs rest st' where
    "reachability W st = (if status \<noteq> 200 then Exit 3 else Val (), st')"
    "trace st' = trace st @ ps @ Http GET (ES_URL W @ ''/'') (auth W) None took status body # qs @ rest"
    "list_all is_print ps" "list_all is_print qs"
    "status \<noteq> 200 \<longrightarrow> rest = []"
    "status = 200 \<longrightarrow>
       (\<exists>took' status' body' rs.
         rest = Http GET (ES_URL W @ ''/_license?pretty'') (auth W) None took' status' body' # rs \<and>
         list_all is_print rs)"
    "now st \<le> now st'"
proof -
  let ?h = "''2) Elasticsearch: reachability + license''"
  obtain took status body s1 where
    r: "http W GET (ES_URL W @ ''/'') (auth W) None (heading ?h st) = ((status, body), s1)"
       "trace s1 = trace (heading ?h st) @ [Http GET (ES_URL W @ ''/'') (auth W) None took status body]"
       "now (heading ?h st) \<le> now s1"
    by (rule http_E)
  let ?s1' = "print (jdump W body 900)
                (ok (''Elasticsearch reachable at '' @ ES_URL W @ '' (auth OK)'') s1)"
  obtain took' status' body' s2 where
    l: "http W GET (ES_URL W @ ''/_license?pretty'') (auth W) None ?s1' = ((status', body'), s2)"
       "trace s2 = trace ?s1' @ [Http GET (ES_URL W @ ''/_license?pretty'') (auth W) None took' status' body']"
       "now ?s1' \<le> now s2"
    by (rule http_E)
  show thesis
    by (rule that [where st' = "snd (reachability W st)" and status = status and took = took
          and body = body and ps = "heading_ev ?h"
          and qs = "if status \<noteq> 200
                    then [Print (''[FAIL] '' @ ''Elasticsearch not reachable or auth failed (HTTP ''
                                   @ str_int status @ '')''),
                          Print (take 1200 body)]
                    else [Print (''[OK] '' @ ''Elasticsearch reachable at '' @ ES_URL W @ '' (auth OK)''),
                          Print (jdump W body 900)]"
          and rest = "if status \<noteq> 200 then []
                      else [Http GET (ES_URL W @ ''/_license?pretty'') (auth W) None took' status' body',
                            Print (jdump W body' 1200)]"])
      (use r l in \<open>simp_all add: reachability_def\<close>)
qed

lemma list_models_E:
  obtains took status body ps qs st' where
    "list_models W st =
       (if status \<noteq> 200 then Exit 4
        else Val (JStr (ELSER_MODEL_ID W) \<in> set (parse_models W body)), st')"
    "trace st' = trace st @ ps @
       Http GET (ES_URL W @ ''/_ml/trained_models?size=200&pretty'') (auth W) None took status body # qs"
    "list_all is_print ps" "list_all is_print qs" "now st \<le> now st'"
proof -
  let ?h = "''3) ML: list models, ensure ELSER exists, download + deploy (if --fix)''"
  let ?u = "ES_URL W @ ''/_ml/trained_models?size=200&pretty''"
  obtain took status body s1 where
    r: "http W GET ?u (auth W) None (heading ?h st) = ((status, body), s1)"
       "trace s1 = trace (heading ?h st) @ [Http GET ?u (auth W) None took status body]"
       "now (heading ?h st) \<le> now s1"
    by (rule http_E)
  show thesis
    by (rule that [where st' = "snd (list_models W st)" and status = status and took = took
          and body = body and ps = "heading_ev ?h"
          and qs = "drop (length (trace s1)) (trace (snd (list_models W st)))"])
      (use r in \<open>simp_all add: list_models_def Let_def\<close>)
qed

lemma poll_event_print [simp]: "poll_event url a (Print m)"
  by (simp add: poll_event_def)

lemma download_model_E:
  obtains took status body ps rest r st' where
    "download_model W st = Some (r, st')"
    "trace st' = trace st @ ps @
       Http POST (model_url W @ ''/_download?pretty'') (auth W) None took status body # rest"
    "list_all is_print ps"
    "list_all (poll_event (model_url W @ ''?pretty'') (auth W)) rest"
    "r = Val () \<or> r = Exit 5 \<or> r = Exit 6"
    "now st \<le> now st'"
proof -
  let ?h = "''3A) Download ELSER model''"
  let ?u = "model_url W @ ''/_download?pretty''"
  obtain took status body s1 where
    r: "http W POST ?u (auth W) None (heading ?h st) = ((status, body), s1)"
       "trace s1 = trace (heading ?h st) @ [Http POST ?u (auth W) None took status body]"
       "now (heading ?h st) \<le> now s1"
    by (rule http_E)
  let ?s2 = "print (jdump W body 1600) s1"
  show thesis
  proof (cases "status \<in> {200, 201}")
    case False
    show ?thesis
      by (rule that [where st' = "fail ''ELSE R download request failed.'' ?s2" and r = "Exit 5"
            and took = took and status = status and body = body and ps = "heading_ev ?h"
            and rest = "[Print (jdump W body 1600), Print ''[FAIL] ELSE R download request failed.'']"])
        (use r False in \<open>simp_all add: download_model_def\<close>)
  next
    case True
    from wait_until_probe [of "download_ready W" "model_url W @ ''?pretty''" "auth W"
        "''ELSE R model availability''" ?s2] download_ready_probe
    obtain b s3 took' status' body' rs where
      w: "wait_until ''ELSE R model availability'' (download_ready W) 600 10 ?s2 = Some (Val b, s3)"
         "trace s3 = trace ?s2 @ Http GET (model_url W @ ''?pretty'') (auth W) None took' status' body' # rs"
         "list_all (poll_event (model_url W @ ''?pretty'') (auth W)) rs" "now ?s2 \<le> now s3"
      by blast
    show ?thesis
      by (rule that [where st' = s3 and r = "if \<not> b then Exit 6 else Val ()"
            and took = took and status = status and body = body and ps = "heading_ev ?h"
            and rest = "Print (jdump W body 1600) #
                        Http GET (model_url W @ ''?pretty'') (auth W) None took' status' body' # rs"])
        (use r True w in \<open>auto simp: download_model_def poll_event_def\<close>)
  qed
qed

lemma ensure_deployment_fix_E:
  assumes "fix_mode W"
  obtains took status body ps rest r st' where
    "ensure_deployment W st = Some (r, st')"
    "trace st' = trace st @ ps @
       Http POST (model_url W @ ''/deployment/_start?pretty'') (auth W) (Some start_payload)
         took status body # Print (jdump W body 1600) # rest"
    "list_all is_print ps"
    "status \<notin> {200, 201, 409} \<longrightarrow>
       r = Exit 7 \<and> rest = [Print ''[FAIL] Deployment start request failed.'']"
    "status \<in> {200, 201, 409} \<longrightarrow>
       (r = Val () \<or> r = Exit 8) \<and>
       (\<exists>took' status' body' rs.
          rest = Http GET (model_url W @ ''/_stats?pretty'') (auth W) None took' status' body' # rs \<and>
          list_all (poll_event (model_url W @ ''/_stats?pretty'') (auth W)) rs)"
    "now st \<le> now st'"
proof -
  let ?h = "''3B) Start deployment (if not started)''"
  let ?u = "model_url W @ ''/deployment/_start?pretty''"
  obtain took status body s1 where
    r: "http W POST ?u (auth W) (Some start_payload) (heading ?h st) = ((status, body), s1)"
       "trace s1 = trace (heading ?h st) @ [Http POST ?u (auth W) (Some start_payload) took status body]"
       "now (heading ?h st) \<le> now s1"
    by (rule http_E)
  let ?s2 = "print (jdump W body 1600) s1"
  show thesis
  proof (cases "status \<in> {200, 201, 409}")
    case False
    show ?thesis
      by (rule that [where st' = "fail ''Deployment start request failed.'' ?s2" and r = "Exit 7"
            and took = took and status = status and body = body and ps = "heading_ev ?h"
            and rest = "[Print ''[FAIL] Deployment start request failed.'']"])
        (use r False assms in \<open>simp_all add: ensure_deployment_def\<close>)
  next
    case True
    from wait_until_probe [of "deploy_status W" "model_url W @ ''/_stats?pretty''" "auth W"
        "''ELSE R deployment''" ?s2] deploy_status_probe
    obtain b s3 took' status' body' rs where
      w: "wait_until ''ELSE R deployment'' (deploy_status W) 600 10 ?s2 = Some (Val b, s3)"
         "trace s3 = trace ?s2 @
            Http GET (model_url W @ ''/_stats?pretty'') (auth W) None took' status' body' # rs"
         "list_all (poll_event (model_url W @ ''/_stats?pretty'') (auth W)) rs" "now ?s2 \<le> now s3"
      by blast
    show ?thesis
      by (rule that [where st' = s3 and r = "if \<not> b then Exit 8 else Val ()"
            and took = took and status = status and body = body and ps = "heading_ev ?h"
            and rest = "Http GET (model_url W @ ''/_stats?pretty'') (auth W) None took' status' body' # rs"])
        (use r True w assms in \<open>auto simp: ensure_deployment_def\<close>)
  qed
qed

lemma ensure_deployment_ro_E:
  assumes "\<not> fix_mode W"
  obtains took status body st' where
    "ensure_deployment W st = Some (Val (), st')"
    "trace st' = trace st @
       [Print ''[OK] Skipping deployment changes (read-only mode).'',
        Http GET (model_url W @ ''/_stats?pretty'') (auth W) None took status body]"
    "now st \<le> now st'"
proof -
  from deploy_status_probe [of W "ok ''Skipping deployment changes (read-only mode).'' st"]
  obtain b info z' took status body where
    "deploy_status W (ok ''Skipping deployment changes (read-only mode).'' st) = ((b, info), z')"
    "trace z' = trace (ok ''Skipping deployment changes (read-only mode).'' st) @
       [Http GET (model_url W @ ''/_stats?pretty'') (auth W) None took status body]"
    "now (ok ''Skipping deployment changes (read-only mode).'' st) \<le> now z'"
    by blast
  then show thesis
    using assms by (intro that [of z' took status body]) (simp_all add: ensure_deployment_def)
qed

lemma ingest_pipeline_fix_E:
  assumes "fix_mode W"
  obtains took status body ps qs st' where
    "ingest_pipeline W st = (if status \<notin> {200, 201} then Exit 9 else Val (), st')"
    "trace st' = trace st @ ps @
       Http PUT (ES_URL W @ ''/_ingest/pipeline/'' @ PIPELINE_ID W @ ''?pretty'') (auth W)
         (Some (pipeline_payload W)) took status body # qs"
    "list_all is_print ps" "list_all is_print qs" "now st \<le> now st'"
proof -
  let ?h = "''4) Ingest pipeline: ensure it points to the correct model id (if --fix)''"
  let ?u = "ES_URL W @ ''/_ingest/pipeline/'' @ PIPELINE_ID W @ ''?pretty''"
  obtain took status body s1 where
    r: "http W PUT ?u (auth W) (Some (pipeline_payload W)) (heading ?h st) = ((status, body), s1)"
       "trace s1 = trace (heading ?h st) @ [Http PUT ?u (auth W) (Some (pipeline_payload W)) took status body]"
       "now (heading ?h st) \<le> now s1"
    by (rule http_E)
  show thesis
    by (rule that [where st' = "snd (ingest_pipeline W st)" and status = status and took = took
          and body = body and ps = "heading_ev ?h"
          and qs = "drop (length (trace s1)) (trace (snd (ingest_pipeline W st)))"])
      (use r assms in \<open>simp_all add: ingest_pipeline_def Let_def\<close>)
qed

lemma ingest_pipeline_ro_E:
  assumes "\<not> fix_mode W"
  obtains took status body ps qs st' where
    "ingest_pipeline W st = (Val (), st')"
    "trace st' = trace st @ ps @
       Http GET (ES_URL W @ ''/_ingest/pipeline/'' @ PIPELINE_ID W @ ''?pretty'') (auth W) None
         took status body # qs"
    "list_all is_print ps" "list_all is_print qs" "now st \<le> now st'"
proof -
  let ?h = "''4) Ingest pipeline: ensure it points to the correct model id (if --fix)''"
  let ?u = "ES_URL W @ ''/_ingest/pipeline/'' @ PIPELINE_ID W @ ''?pretty''"
  obtain took status body s1 where
    r: "http W GET ?u (auth W) None (heading ?h st) = ((status, body), s1)"
       "trace s1 = trace (heading ?h st) @ [Http GET ?u (auth W) None took status body]"
       "now (heading ?h st) \<le> now s1"
    by (rule http_E)
  show thesis
    by (rule that [where st' = "snd (ingest_pipeline W st)" and status = status and took = took
          and body = body and ps = "heading_ev ?h"
          and qs = "drop (length (trace s1)) (trace (snd (ingest_pipeline W st)))"])
      (use r assms in \<open>simp_all add: ingest_pipeline_def Let_def\<close>)
qed

lemma index_mapping_fix_E:
  assumes "fix_mode W"
  obtains took_d status_d body_d took status body ps qs st' where
    "index_mapping W st = (if status \<notin> {200, 201} then Exit 10 else Val (), st')"
    "trace st' = trace st @ ps @
       Http DELETE (ES_URL W @ ''/'' @ INDEX W @ ''?pretty'') (auth W) None took_d status_d body_d #
       Print (jdump W body_d 600) #
       Http PUT (ES_URL W @ ''/'' @ INDEX W @ ''?pretty'') (auth W) (Some index_payload)
         took status body # qs"
    "list_all is_print ps" "list_all is_print qs" "now st \<le> now st'"
proof -
  let ?h = "''5) Index mapping: ensure ml.tokens is rank_features (if --fix)''"
  let ?u = "ES_URL W @ ''/'' @ INDEX W @ ''?pretty''"
  obtain took_d status_d body_d s1 where
    d: "http W DELETE ?u (auth W) None (heading ?h st) = ((status_d, body_d), s1)"
       "trace s1 = trace (heading ?h st) @ [Http DELETE ?u (auth W) None took_d status_d body_d]"
       "now (heading ?h st) \<le> now s1"
    by (rule http_E)
  obtain took status body s2 where
    p: "http W PUT ?u (auth W) (Some index_payload) (print (jdump W body_d 600) s1) = ((status, body), s2)"
       "trace s2 = trace (print (jdump W body_d 600) s1) @
                   [Http PUT ?u (auth W) (Some index_payload) took status body]"
       "now (print (jdump W body_d 600) s1) \<le> now s2"
    by (rule http_E)
  show thesis
    by (rule that [where st' = "snd (index_mapping W st)" and status = status and took = took
          and body = body and status_d = status_d and took_d = took_d and body_d = body_d
          and ps = "heading_ev ?h"
          and qs = "drop (length (trace s2)) (trace (snd (index_mapping W st)))"])
      (use d p assms in \<open>simp_all add: index_mapping_def Let_def\<close>)
qed

lemma index_mapping_ro_E:
  assumes "\<not> fix_mode W"
  obtains ps st' where
    "index_mapping W st = (Val (), st')" "trace st' = trace st @ ps" "list_all is_print ps"
    "now st \<le> now st'"
  by (rule that [where st' = "snd (index_mapping W st)"
        and ps = "drop (length (trace st)) (trace (snd (index_mapping W st)))"])
    (use assms in \<open>simp_all add: index_mapping_def Let_def\<close>)

lemma restart_logstash_E:
  obtains took rc out err fallback st' where
    "restart_logstash W st = (Val (), st')"
    "trace st' = trace st @
       Run (compose_restart W) took rc out err # Print (take 1200 (str_strip W (out @ err))) #
       fallback @ [Sleep 20]"
    "rc = 0 \<longrightarrow> fallback = []"
    "rc \<noteq> 0 \<longrightarrow>
       (\<exists>took2 rc2 out2 err2.
         fallback = [Print ''[WARN] docker compose restart failed; trying docker restart'',
                     Run (docker_restart W) took2 rc2 out2 err2,
                     Print (take 1200 (str_strip W (out2 @ err2)))])"
    "now st \<le> now st'"
proof -
  obtain took rc out err s1 where
    c: "run W (compose_restart W) st = ((rc, str_strip W (out @ err)), s1)"
       "trace s1 = trace st @ [Run (compose_restart W) took rc out err]"
       "now st \<le> now s1"
    by (rule run_E)
  let ?s2 = "print (take 1200 (str_strip W (out @ err))) s1"
  let ?s2' = "warn ''docker compose restart failed; trying docker restart'' ?s2"
  obtain took2 rc2 out2 err2 s3 where
    f: "run W (docker_restart W) ?s2' = ((rc2, str_strip W (out2 @ err2)), s3)"
       "trace s3 = trace ?s2' @ [Run (docker_restart W) took2 rc2 out2 err2]"
       "now ?s2' \<le> now s3"
    by (rule run_E)
  show thesis
    by (rule that [where st' = "snd (restart_logstash W st)" and rc = rc and took = took
          and out = out and err = err
          and fallback = "if rc = 0 then []
                          else [Print ''[WARN] docker compose restart failed; trying docker restart'',
                                Run (docker_restart W) took2 rc2 out2 err2,
                                Print (take 1200 (str_strip W (out2 @ err2)))]"])
      (use c f in \<open>simp_all add: restart_logstash_def Let_def\<close>)
qed

lemma logstash_evidence_E:
  obtains took rc out err ps qs where
    "trace (logstash_evidence W st) = trace st @ ps @ Run (docker_logs W) took rc out err # qs"
    "list_all is_print ps" "list_all is_print qs" "now st \<le> now (logstash_evidence W st)"
proof -
  let ?h = "''7) Recent Logstash evidence (tail)''"
  obtain took rc out err s1 where
    r: "run W (docker_logs W) (heading ?h st) = ((rc, str_strip W (out @ err)), s1)"
       "trace s1 = trace (heading ?h st) @ [Run (docker_logs W) took rc out err]"
       "now (heading ?h st) \<le> now s1"
    by (rule run_E)
  show thesis
    by (rule that [where rc = rc and took = took and out = out and err = err
          and ps = "heading_ev ?h"
          and qs = "drop (length (trace s1)) (trace (logstash_evidence W st))"])
      (use r in \<open>simp_all add: logstash_evidence_def Let_def\<close>)
qed

lemma ex_stage:
  "(\<exists>k. P k) \<longleftrightarrow>
     P Banner \<or> P Docker \<or> P Reach \<or> P Models \<or> P Download \<or> P Deploy \<or> P Pipeline \<or>
     P Index \<or> P Restart \<or> P Logs"
proof
  assume "\<exists>k. P k"
  then obtain k where "P k" by blast
  then show "P Banner \<or> P Docker \<or> P Reach \<or> P Models \<or> P Download \<or> P Deploy \<or> P Pipeline \<or>
     P Index \<or> P Restart \<or> P Logs"
    by (cases k) simp_all
qed blast

lemma adds_I: "trace s' = trace s @ es \<Longrightarrow> list_all P es \<Longrightarrow> now s \<le> now s' \<Longrightarrow> adds P s s'"
  by (auto simp: adds_def)

lemma adds_mono: "adds P s s' \<Longrightarrow> (\<And>e. P e \<Longrightarrow> Q e) \<Longrightarrow> adds Q s s'"
  by (auto simp: adds_def list_all_iff)

lemma prints_P: "list_all is_print ps \<Longrightarrow> (\<And>m. P (Print m)) \<Longrightarrow> list_all P ps"
proof (induction ps)
  case Nil
  show ?case by simp
next
  case (Cons e ps)
  then show ?case by (cases e) simp_all
qed

lemma emits_prints [simp]: "list_all is_print ps \<Longrightarrow> list_all (emits W X) ps"
  by (rule prints_P) simp_all

lemma since_print [simp]: "since W X (Print m)"
  by (auto simp: since_def)

lemma before_print [simp]: "stage_no X \<noteq> 0 \<Longrightarrow> before W X (Print m)"
  by (auto simp: before_def intro: exI [of _ Banner])

lemma since_mono: "stage_no X \<le> stage_no Y \<Longrightarrow> since W Y e \<Longrightarrow> since W X e"
  unfolding since_def by (blast intro: le_trans)

lemma since_emits: "emits W X e \<Longrightarrow> since W X e"
  by (auto simp: since_def)

lemma since_prints [simp]: "list_all is_print ps \<Longrightarrow> list_all (since W X) ps"
  by (rule prints_P) simp_all

lemma from_logs_run: "\<exists>s. from_logs W st = Some (Exit 0, s) \<and> adds (since W Logs) st s"
proof -
  obtain took rc out err ps qs where
    l: "trace (logstash_evidence W st) = trace st @ ps @ Run (docker_logs W) took rc out err # qs"
       "list_all is_print ps" "list_all is_print qs" "now st \<le> now (logstash_evidence W st)"
    by (rule logstash_evidence_E [of W st])
  have "since W Logs (Run (docker_logs W) took rc out err)"
    by (rule since_emits) simp
  with l show ?thesis
    by (auto simp: from_logs_def adds_def)
qed

lemma from_restart_run: "\<exists>s. from_restart W st = Some (Exit 0, s) \<and> adds (since W Restart) st s"
proof -
  let ?h = "''6) Restart Logstash (if --fix) and verify indexing''"
  let ?u = "ES_URL W @ ''/'' @ INDEX W @ ''/_count?pretty''"
  have pre: "\<exists>s1. (if fix_mode W then restart_logstash W (heading ?h st) else (Val (), heading ?h st))
                    = (Val (), s1) \<and> adds (since W Restart) st s1"
  proof (cases "fix_mode W")
    case False
    then show ?thesis by (auto simp: adds_def)
  next
    case True
    obtain took rc out err fallback s1 where
      r: "restart_logstash W (heading ?h st) = (Val (), s1)"
         "trace s1 = trace (heading ?h st) @
            Run (compose_restart W) took rc out err # Print (take 1200 (str_strip W (out @ err))) #
            fallback @ [Sleep 20]"
         "rc = 0 \<longrightarrow> fallback = []"
         "rc \<noteq> 0 \<longrightarrow>
            (\<exists>took2 rc2 out2 err2.
              fallback = [Print ''[WARN] docker compose restart failed; trying docker restart'',
                          Run (docker_restart W) took2 rc2 out2 err2,
                          Print (take 1200 (str_strip W (out2 @ err2)))])"
         "now (heading ?h st) \<le> now s1"
      by (rule restart_logstash_E [of W "heading ?h st"])
    have e: "\<And>cmd t c out err. cmd = compose_restart W \<or> cmd = docker_restart W \<Longrightarrow>
                since W Restart (Run cmd t c out err)"
      using True by (intro since_emits) simp
    have "since W Restart (Sleep 20)" using True by (intro since_emits) simp
    moreover have "list_all (since W Restart) fallback"
      using r(3, 4) e by (cases "rc = 0") auto
    ultimately show ?thesis using True r(1, 2, 5) e by (auto simp: adds_def)
  qed
  then obtain s1 where
    s1: "(if fix_mode W then restart_logstash W (heading ?h st) else (Val (), heading ?h st)) = (Val (), s1)"
        "adds (since W Restart) st s1"
    by blast
  obtain took status body s2 where
    c: "http W GET ?u (auth W) None s1 = ((status, body), s2)"
       "trace s2 = trace s1 @ [Http GET ?u (auth W) None took status body]" "now s1 \<le> now s2"
    by (rule http_E)
  have "since W Restart (Http GET ?u (auth W) None took status body)"
    by (rule since_emits) simp
  with c have a2: "adds (since W Restart) s1 (print (jdump W body 800) s2)"
    by (auto simp: adds_def)
  have rc: "restart_and_count W st = (Val (), print (jdump W body 800) s2)"
    using s1(1) c(1) by (simp add: restart_and_count_def Let_def)
  from from_logs_run [of W "print (jdump W body 800) s2"] obtain s where
    s: "from_logs W (print (jdump W body 800) s2) = Some (Exit 0, s)"
       "adds (since W Logs) (print (jdump W body 800) s2) s"
    by blast
  from s(2) have "adds (since W Restart) (print (jdump W body 800) s2) s"
    by (rule adds_mono) (auto elim: since_mono [rotated])
  with s1(2) a2 have "adds (since W Restart) st s" by (metis adds_trans)
  with rc s(1) show ?thesis by (simp add: from_restart_def)
qed

lemma codes_since_mono: "stage_no X \<le> stage_no Y \<Longrightarrow> codes_since W Y n \<Longrightarrow> codes_since W X n"
  unfolding codes_since_def by (blast intro: le_trans)

lemma codes_since_stage: "n \<in> stage_codes W X \<Longrightarrow> codes_since W X n"
  unfolding codes_since_def by blast

lemma codes_since_0: "codes_since W X 0"
proof -
  have "stage_no X \<le> stage_no Logs" by (cases X) simp_all
  then show ?thesis unfolding codes_since_def by (intro exI [of _ Logs]) simp
qed

text \<open>
  A stage that ends in a state reached by its own entries, and either hands on or returns
  one of its own codes, followed by a rest of the run that always returns: the whole
  always returns.
\<close>

lemma thn_stage:
  assumes m: "\<exists>r s1. m = Some (r, s1) \<and> adds (emits W X) st s1 \<and>
                ((\<exists>a. r = Val a) \<or> (\<exists>n. r = Exit n \<and> n \<in> stage_codes W X))"
    and k: "\<And>a s1. \<exists>n s. k a s1 = Some (Exit n, s) \<and> adds (since W Y) s1 s \<and> codes_since W Y n"
    and le: "stage_no X \<le> stage_no Y"
  shows "\<exists>n s. thn m k = Some (Exit n, s) \<and> adds (since W X) st s \<and> codes_since W X n"
proof -
  from m obtain r s1 where
    m': "m = Some (r, s1)" "adds (emits W X) st s1"
        "(\<exists>a. r = Val a) \<or> (\<exists>n. r = Exit n \<and> n \<in> stage_codes W X)"
    by blast
  from m'(2) have m2: "adds (since W X) st s1"
    by (rule adds_mono) (rule since_emits)
  from m'(3) consider v where "r = Val v" | n where "r = Exit n" "n \<in> stage_codes W X" by blast
  then show ?thesis
  proof cases
    case 1
    from k [of v s1] obtain n s where
      n: "k v s1 = Some (Exit n, s)" "adds (since W Y) s1 s" "codes_since W Y n"
      by blast
    from n(2) have "adds (since W X) s1 s"
      by (rule adds_mono) (rule since_mono [OF le])
    with m2 have "adds (since W X) st s" by (rule adds_trans)
    with 1 m'(1) n(1, 3) le show ?thesis by (auto intro: codes_since_mono)
  next
    case 2
    with m'(1) m2 show ?thesis by (auto intro: codes_since_stage)
  qed
qed

lemma from_logs_codes:
  "\<exists>n s. from_logs W st = Some (Exit n, s) \<and> adds (since W Logs) st s \<and> codes_since W Logs n"
  using from_logs_run [of W st] codes_since_0 by blast

lemma from_restart_codes:
  "\<exists>n s. from_restart W st = Some (Exit n, s) \<and> adds (since W Restart) st s \<and> codes_since W Restart n"
  using from_restart_run [of W st] codes_since_0 by blast

lemma index_mapping_sum:
  "\<exists>r s1. Some (index_mapping W st) = Some (r, s1) \<and> adds (emits W Index) st s1 \<and>
     ((\<exists>a. r = Val a) \<or> (\<exists>n. r = Exit n \<and> n \<in> stage_codes W Index))"
proof (cases "fix_mode W")
  case True
  obtain took_d status_d body_d took status body ps qs st' where
    i: "index_mapping W st = (if status \<notin> {200, 201} then Exit 10 else Val (), st')"
       "trace st' = trace st @ ps @
          Http DELETE (ES_URL W @ ''/'' @ INDEX W @ ''?pretty'') (auth W) None took_d status_d body_d #
          Print (jdump W body_d 600) #
          Http PUT (ES_URL W @ ''/'' @ INDEX W @ ''?pretty'') (auth W) (Some index_payload)
            took status body # qs"
       "list_all is_print ps" "list_all is_print qs" "now st \<le> now st'"
    by (rule index_mapping_fix_E [OF True, of st])
  have "emits W Index (Http DELETE (ES_URL W @ ''/'' @ INDEX W @ ''?pretty'') (auth W) None took_d status_d body_d)"
    and "emits W Index (Http PUT (ES_URL W @ ''/'' @ INDEX W @ ''?pretty'') (auth W) (Some index_payload)
            took status body)"
    using True by simp_all
  with i have "adds (emits W Index) st st'" by (auto simp: adds_def)
  with i(1) True show ?thesis by auto
next
  case False
  obtain ps st' where
    i: "index_mapping W st = (Val (), st')" "trace st' = trace st @ ps" "list_all is_print ps"
       "now st \<le> now st'"
    by (rule index_mapping_ro_E [OF False, of st])
  then have "adds (emits W Index) st st'" by (auto simp: adds_def)
  with i(1) show ?thesis by auto
qed

lemma from_index_run:
  "\<exists>n s. from_index W st = Some (Exit n, s) \<and> adds (since W Index) st s \<and> codes_since W Index n"
  unfolding from_index_def
  by (rule thn_stage [where Y = Restart]) (rule index_mapping_sum, rule from_restart_codes, simp)

lemma ingest_pipeline_sum:
  "\<exists>r s1. Some (ingest_pipeline W st) = Some (r, s1) \<and> adds (emits W Pipeline) st s1 \<and>
     ((\<exists>a. r = Val a) \<or> (\<exists>n. r = Exit n \<and> n \<in> stage_codes W Pipeline))"
proof (cases "fix_mode W")
  case True
  obtain took status body ps qs st' where
    i: "ingest_pipeline W st = (if status \<notin> {200, 201} then Exit 9 else Val (), st')"
       "trace st' = trace st @ ps @
          Http PUT (ES_URL W @ ''/_ingest/pipeline/'' @ PIPELINE_ID W @ ''?pretty'') (auth W)
            (Some (pipeline_payload W)) took status body # qs"
       "list_all is_print ps" "list_all is_print qs" "now st \<le> now st'"
    by (rule ingest_pipeline_fix_E [OF True, of st])
  have "emits W Pipeline (Http PUT (ES_URL W @ ''/_ingest/pipeline/'' @ PIPELINE_ID W @ ''?pretty'')
          (auth W) (Some (pipeline_payload W)) took status body)"
    using True by simp_all
  with i have "adds (emits W Pipeline) st st'" by (auto simp: adds_def)
  with i(1) True show ?thesis by auto
next
  case False
  obtain took status body ps qs st' where
    i: "ingest_pipeline W st = (Val (), st')"
       "trace st' = trace st @ ps @
          Http GET (ES_URL W @ ''/_ingest/pipeline/'' @ PIPELINE_ID W @ ''?pretty'') (auth W) None
            took status body # qs"
       "list_all is_print ps" "list_all is_print qs" "now st \<le> now st'"
    by (rule ingest_pipeline_ro_E [OF False, of st])
  have "emits W Pipeline (Http GET (ES_URL W @ ''/_ingest/pipeline/'' @ PIPELINE_ID W @ ''?pretty'')
          (auth W) None took status body)"
    using False by simp_all
  with i have "adds (emits W Pipeline) st st'" by (auto simp: adds_def)
  with i(1) show ?thesis by auto
qed

lemma from_pipeline_run:
  "\<exists>n s. from_pipeline W st = Some (Exit n, s) \<and> adds (since W Pipeline) st s \<and>
     codes_since W Pipeline n"
  unfolding from_pipeline_def
  by (rule thn_stage [where Y = Index]) (rule ingest_pipeline_sum, rule from_index_run, simp)

lemma poll_emits:
  assumes "\<And>took status body. emits W X (Http GET url a None took status body)"
    and "emits W X (Sleep 10)"
  shows "list_all (poll_event url a) rs \<Longrightarrow> list_all (emits W X) rs"
  using assms by (induction rs) (auto simp: poll_event_def elim: is_print.elims)

lemma ensure_deployment_sum:
  "\<exists>r s1. ensure_deployment W st = Some (r, s1) \<and> adds (emits W Deploy) st s1 \<and>
     ((\<exists>a. r = Val a) \<or> (\<exists>n. r = Exit n \<and> n \<in> stage_codes W Deploy))"
proof (cases "fix_mode W")
  case True
  let ?u = "model_url W @ ''/_stats?pretty''"
  obtain took status body ps rest r st' where
    d: "ensure_deployment W st = Some (r, st')"
       "trace st' = trace st @ ps @
          Http POST (model_url W @ ''/deployment/_start?pretty'') (auth W) (Some start_payload)
            took status body # Print (jdump W body 1600) # rest"
       "list_all is_print ps"
       "status \<notin> {200, 201, 409} \<longrightarrow>
          r = Exit 7 \<and> rest = [Print ''[FAIL] Deployment start request failed.'']"
       "status \<in> {200, 201, 409} \<longrightarrow>
          (r = Val () \<or> r = Exit 8) \<and>
          (\<exists>took' status' body' rs.
             rest = Http GET ?u (auth W) None took' status' body' # rs \<and>
             list_all (poll_event ?u (auth W)) rs)"
       "now st \<le> now st'"
    by (rule ensure_deployment_fix_E [OF True, of st])
  have g: "\<And>took status body. emits W Deploy (Http GET ?u (auth W) None took status body)"
    by simp
  have sl: "emits W Deploy (Sleep 10)" using True by simp
  have p: "emits W Deploy (Http POST (model_url W @ ''/deployment/_start?pretty'') (auth W)
             (Some start_payload) took status body)"
    using True by simp
  have "list_all (emits W Deploy) rest"
    using d(4, 5) g poll_emits [OF g sl] by (cases "status \<in> {200, 201, 409}") auto
  with d p have "adds (emits W Deploy) st st'" by (auto simp: adds_def)
  moreover have "(\<exists>a. r = Val a) \<or> (\<exists>n. r = Exit n \<and> n \<in> stage_codes W Deploy)"
    using d(4, 5) True by (cases "status \<in> {200, 201, 409}") auto
  ultimately show ?thesis using d(1) by blast
next
  case False
  obtain took status body st' where
    d: "ensure_deployment W st = Some (Val (), st')"
       "trace st' = trace st @
          [Print ''[OK] Skipping deployment changes (read-only mode).'',
           Http GET (model_url W @ ''/_stats?pretty'') (auth W) None took status body]"
       "now st \<le> now st'"
    by (rule ensure_deployment_ro_E [OF False, of st])
  have "emits W Deploy (Http GET (model_url W @ ''/_stats?pretty'') (auth W) None took status body)"
    by simp
  with d have "adds (emits W Deploy) st st'" by (auto simp: adds_def)
  with d(1) show ?thesis by blast
qed

lemma from_deploy_run:
  "\<exists>n s. from_deploy W st = Some (Exit n, s) \<and> adds (since W Deploy) st s \<and> codes_since W Deploy n"
  unfolding from_deploy_def
  by (rule thn_stage [where Y = Pipeline]) (rule ensure_deployment_sum, rule from_pipeline_run, simp)

lemma download_sum:
  "\<exists>r s1. (if fix_mode W \<and> \<not> have_elser then download_model W st else Some (Val (), st)) = Some (r, s1)
     \<and> adds (emits W Download) st s1 \<and>
     ((\<exists>a. r = Val a) \<or> (\<exists>n. r = Exit n \<and> n \<in> stage_codes W Download))"
proof (cases "fix_mode W \<and> \<not> have_elser")
  case False
  then show ?thesis by auto
next
  case True
  let ?u = "model_url W @ ''?pretty''"
  obtain took status body ps rest r st' where
    d: "download_model W st = Some (r, st')"
       "trace st' = trace st @ ps @
          Http POST (model_url W @ ''/_download?pretty'') (auth W) None took status body # rest"
       "list_all is_print ps"
       "list_all (poll_event ?u (auth W)) rest"
       "r = Val () \<or> r = Exit 5 \<or> r = Exit 6"
       "now st \<le> now st'"
    by (rule download_model_E [of W st])
  have g: "\<And>took status body. emits W Download (Http GET ?u (auth W) None took status body)"
    using True by simp
  have sl: "emits W Download (Sleep 10)" using True by simp
  have p: "emits W Download (Http POST (model_url W @ ''/_download?pretty'') (auth W) None
             took status body)"
    using True by simp
  have "list_all (emits W Download) rest"
    using d(4) by (rule poll_emits [OF g sl])
  with d p have "adds (emits W Download) st st'" by (auto simp: adds_def)
  moreover have "(\<exists>a. r = Val a) \<or> (\<exists>n. r = Exit n \<and> n \<in> stage_codes W Download)"
    using d(5) True by auto
  ultimately show ?thesis using d(1) True by auto
qed

lemma from_download_run:
  "\<exists>n s. from_download W have_elser st = Some (Exit n, s) \<and> adds (since W Download) st s \<and>
     codes_since W Download n"
  unfolding from_download_def
  by (rule thn_stage [where Y = Deploy]) (rule download_sum, rule from_deploy_run, simp)

lemma list_models_sum:
  "\<exists>r s1. Some (list_models W st) = Some (r, s1) \<and> adds (emits W Models) st s1 \<and>
     ((\<exists>a. r = Val a) \<or> (\<exists>n. r = Exit n \<and> n \<in> stage_codes W Models))"
proof -
  obtain took status body ps qs st' where
    l: "list_models W st =
          (if status \<noteq> 200 then Exit 4
           else Val (JStr (ELSER_MODEL_ID W) \<in> set (parse_models W body)), st')"
       "trace st' = trace st @ ps @
          Http GET (ES_URL W @ ''/_ml/trained_models?size=200&pretty'') (auth W) None took status body # qs"
       "list_all is_print ps" "list_all is_print qs" "now st \<le> now st'"
    by (rule list_models_E [of W st])
  have "emits W Models (Http GET (ES_URL W @ ''/_ml/trained_models?size=200&pretty'') (auth W) None
          took status body)"
    by simp
  with l have "adds (emits W Models) st st'" by (auto simp: adds_def)
  with l(1) show ?thesis by auto
qed

lemma from_models_run:
  "\<exists>n s. from_models W st = Some (Exit n, s) \<and> adds (since W Models) st s \<and> codes_since W Models n"
  unfolding from_models_def
  by (rule thn_stage [where Y = Download]) (rule list_models_sum, rule from_download_run, simp)

lemma reachability_sum:
  "\<exists>r s1. Some (reachability W st) = Some (r, s1) \<and> adds (emits W Reach) st s1 \<and>
     ((\<exists>a. r = Val a) \<or> (\<exists>n. r = Exit n \<and> n \<in> stage_codes W Reach))"
proof -
  obtain took status body ps qs rest st' where
    r: "reachability W st = (if status \<noteq> 200 then Exit 3 else Val (), st')"
       "trace st' = trace st @ ps @ Http GET (ES_URL W @ ''/'') (auth W) None took status body # qs @ rest"
       "list_all is_print ps" "list_all is_print qs"
       "status \<noteq> 200 \<longrightarrow> rest = []"
       "status = 200 \<longrightarrow>
          (\<exists>took' status' body' rs.
             rest = Http GET (ES_URL W @ ''/_license?pretty'') (auth W) None took' status' body' # rs \<and>
             list_all is_print rs)"
       "now st \<le> now st'"
    by (rule reachability_E [of W st])
  have g: "\<And>took status body. emits W Reach (Http GET (ES_URL W @ ''/'') (auth W) None took status body)"
    "\<And>took status body. emits W Reach (Http GET (ES_URL W @ ''/_license?pretty'') (auth W) None took status body)"
    by simp_all
  have "list_all (emits W Reach) rest"
    using r(5, 6) g by (cases "status = 200") auto
  with r g have "adds (emits W Reach) st st'" by (auto simp: adds_def)
  with r(1) show ?thesis by auto
qed

lemma from_reach_run:
  "\<exists>n s. from_reach W st = Some (Exit n, s) \<and> adds (since W Reach) st s \<and> codes_since W Reach n"
  unfolding from_reach_def
  by (rule thn_stage [where Y = Models]) (rule reachability_sum, rule from_models_run, simp)

lemma docker_status_sum:
  "\<exists>r s1. Some (docker_status W st) = Some (r, s1) \<and> adds (emits W Docker) st s1 \<and>
     ((\<exists>a. r = Val a) \<or> (\<exists>n. r = Exit n \<and> n \<in> stage_codes W Docker))"
proof -
  obtain took rc out err ps qs st' where
    d: "docker_status W st = (if rc \<noteq> 0 then Exit 2 else Val (), st')"
       "trace st' = trace st @ ps @ Run docker_ps took rc out err # qs"
       "list_all is_print ps" "list_all is_print qs" "now st \<le> now st'"
    by (rule docker_status_E [of W st])
  have "emits W Docker (Run docker_ps took rc out err)"
    by simp
  with d have "adds (emits W Docker) st st'" by (auto simp: adds_def)
  with d(1) show ?thesis by auto
qed

lemma from_docker_run:
  "\<exists>n s. from_docker W st = Some (Exit n, s) \<and> adds (since W Docker) st s \<and> codes_since W Docker n"
  unfolding from_docker_def
  by (rule thn_stage [where Y = Reach]) (rule docker_status_sum, rule from_reach_run, simp)

lemma trace_banner:
  "trace (banner W) =
     heading_ev ''0) Mode'' @
     [Print (''Fix mode: '' @ (if fix_mode W then ''ON (--fix)'' else ''OFF (read-only)''))]"
  by (simp add: banner_def)

lemma main_run:
  "\<exists>n s. main W = Some (Exit n, s) \<and> list_all (since W Banner) (trace s) \<and> codes_since W Docker n"
proof -
  from from_docker_run [of W "banner W"] obtain n s where
    r: "from_docker W (banner W) = Some (Exit n, s)" "adds (since W Docker) (banner W) s"
       "codes_since W Docker n"
    by blast
  from r(2) have "adds (since W Banner) (banner W) s"
    by (rule adds_mono) (rule since_mono [of Banner Docker], simp)
  then have "list_all (since W Banner) (trace s)"
    by (auto simp: adds_def trace_banner)
  with r(1, 3) show ?thesis by (auto simp: main_from_docker)
qed

lemma since_read_only:
  assumes "\<not> fix_mode W" and "since W X e"
  shows "read_only_event W e"
proof -
  from assms(2) obtain k where k: "emits W k e" by (auto simp: since_def)
  show ?thesis
  proof (cases e)
    case (Http m url a p took status body)
    with k assms(1) show ?thesis by (cases k) auto
  next
    case (Run cmd took rc out err)
    with k assms(1) show ?thesis by auto
  next
    case (Sleep n)
    with k assms(1) show ?thesis by simp
  next
    case (Print m)
    then show ?thesis by simp
  qed
qed

lemma codes_read_only:
  assumes "\<not> fix_mode W" and "codes_since W X n"
  shows "n \<in> {0, 2, 3, 4}"
proof -
  from assms(2) obtain k where "n \<in> stage_codes W k" by (auto simp: codes_since_def)
  with assms(1) show ?thesis by (cases k) auto
qed

text \<open>
  Claim C1. A run without \<open>--fix\<close> always comes to an end, and everything it did is
  read-only: each HTTP request is a GET without a body, the only commands run are
  \<open>docker ps\<close> and \<open>docker logs\<close> (no restart), and the rest is output. No POST, PUT or
  DELETE is ever sent.
\<close>

theorem read_only_run_never_mutates:
  "\<not> fix_mode W \<Longrightarrow>
     \<exists>n s. main W = Some (Exit n, s) \<and> list_all (read_only_event W) (trace s)"
proof -
  assume ro: "\<not> fix_mode W"
  from main_run [of W] obtain n s where
    r: "main W = Some (Exit n, s)" "list_all (since W Banner) (trace s)"
    by blast
  from r(2) have "list_all (read_only_event W) (trace s)"
    by (auto simp: list_all_iff intro: since_read_only [OF ro])
  with r(1) show ?thesis by blast
qed

theorem read_only_run_never_mutates_witness:
  "\<not> fix_mode quiet_world \<and>
   (\<exists>n s. main quiet_world = Some (Exit n, s) \<and> list_all (read_only_event quiet_world) (trace s))"
  using read_only_run_never_mutates [of quiet_world]
  by (simp add: fix_mode_def quiet_world_def)

text \<open>
  As long as every library call returns, a run without \<open>--fix\<close> comes to an end and
  \<open>main\<close> returns 0, 2, 3 or 4. Calls that raise are taken up at the end of the theory.
\<close>

lemma returning_read_only_codes:
  "\<not> fix_mode W \<Longrightarrow> \<exists>n s. main W = Some (Exit n, s) \<and> n \<in> {0, 2, 3, 4}"
proof -
  assume ro: "\<not> fix_mode W"
  from main_run [of W] obtain n s where
    r: "main W = Some (Exit n, s)" "codes_since W Docker n"
    by blast
  from ro r(2) have "n \<in> {0, 2, 3, 4}" by (rule codes_read_only)
  with r(1) show ?thesis by blast
qed

lemma before_mono: "stage_no X \<le> stage_no Y \<Longrightarrow> before W X e \<Longrightarrow> before W Y e"
  unfolding before_def by (blast intro: less_le_trans)

lemma before_emits: "stage_no X < stage_no Y \<Longrightarrow> emits W X e \<Longrightarrow> before W Y e"
  unfolding before_def by blast

lemma codes_before_mono:
  "stage_no X \<le> stage_no Y \<Longrightarrow> codes_before W X n \<Longrightarrow> codes_before W Y n"
  unfolding codes_before_def by (blast intro: less_le_trans)

lemma codes_before_stage: "stage_no X < stage_no Y \<Longrightarrow> n \<in> stage_codes W X \<Longrightarrow> codes_before W Y n"
  unfolding codes_before_def by blast

lemma before_adds:
  assumes "list_all (before W X) (trace st)" and "adds (emits W X) st s1"
    and "stage_no X < stage_no Y"
  shows "list_all (before W Y) (trace s1)"
proof -
  from assms(2) obtain es where es: "trace s1 = trace st @ es" "list_all (emits W X) es"
    by (auto simp: adds_def)
  have "list_all (before W Y) (trace st)"
    using assms(1, 3) by (auto simp: list_all_iff intro: before_mono [of X Y])
  moreover have "list_all (before W Y) es"
    using es(2) assms(3) by (auto simp: list_all_iff intro: before_emits [of X Y])
  ultimately show ?thesis using es(1) by simp
qed

lemma gets_to_step:
  assumes g: "gets_to W X f"
    and f: "\<And>st. f st = thn (m st) k"
    and m: "\<And>st. \<exists>r s1. m st = Some (r, s1) \<and> adds (emits W X) st s1 \<and>
                ((\<exists>a. r = Val a) \<or> (\<exists>n. r = Exit n \<and> n \<in> stage_codes W X))"
    and lt: "stage_no X < stage_no Y"
  shows "\<exists>a. gets_to W Y (k a)"
proof -
  from g consider
    (stopped) n s where "main W = Some (Exit n, s)" "codes_before W X n"
      "list_all (before W X) (trace s)"
    | (reached) sX where "main W = f sX" "list_all (before W X) (trace sX)"
    unfolding gets_to_def by blast
  then show ?thesis
  proof cases
    case stopped
    from stopped(2) lt have "codes_before W Y n" by (intro codes_before_mono [of X Y]) simp_all
    moreover from stopped(3) lt have "list_all (before W Y) (trace s)"
      by (auto simp: list_all_iff intro: before_mono [of X Y])
    ultimately show ?thesis using stopped(1) unfolding gets_to_def by blast
  next
    case reached
    from m [of sX] obtain r s1 where
      r: "m sX = Some (r, s1)" "adds (emits W X) sX s1"
         "(\<exists>a. r = Val a) \<or> (\<exists>n. r = Exit n \<and> n \<in> stage_codes W X)"
      by blast
    have b: "list_all (before W Y) (trace s1)"
      using reached(2) r(2) lt by (rule before_adds)
    from r(3) consider a where "r = Val a" | n where "r = Exit n" "n \<in> stage_codes W X" by blast
    then show ?thesis
    proof cases
      case 1
      with reached(1) f [of sX] r(1) have "main W = k a s1" by simp
      with b show ?thesis unfolding gets_to_def by blast
    next
      case 2
      with reached(1) f [of sX] r(1) have "main W = Some (Exit n, s1)" by simp
      moreover from 2(2) lt have "codes_before W Y n" by (rule codes_before_stage [rotated])
      ultimately show ?thesis using b unfolding gets_to_def by blast
    qed
  qed
qed

lemma gets_docker: "gets_to W Docker (from_docker W)"
proof -
  have "list_all (before W Docker) (trace (banner W))"
    by (simp add: trace_banner heading_ev_def)
  then show ?thesis unfolding gets_to_def using main_from_docker by blast
qed

lemma gets_reach: "gets_to W Reach (from_reach W)"
  using gets_to_step [OF gets_docker, of W "\<lambda>st. Some (docker_status W st)" "\<lambda>u. from_reach W" Reach]
    docker_status_sum
  by (simp add: from_docker_def)

lemma gets_models: "gets_to W Models (from_models W)"
  using gets_to_step [OF gets_reach, of W "\<lambda>st. Some (reachability W st)" "\<lambda>u. from_models W" Models]
    reachability_sum
  by (simp add: from_reach_def)

lemma gets_download: "\<exists>have_elser. gets_to W Download (from_download W have_elser)"
  using gets_to_step [OF gets_models, of W "\<lambda>st. Some (list_models W st)" "from_download W" Download]
    list_models_sum
  by (simp add: from_models_def)

lemma gets_deploy: "gets_to W Deploy (from_deploy W)"
proof -
  from gets_download obtain h where h: "gets_to W Download (from_download W h)" by blast
  from gets_to_step [OF h, of "\<lambda>st. if fix_mode W \<and> \<not> h then download_model W st else Some (Val (), st)"
      "\<lambda>u. from_deploy W" Deploy] download_sum [of W h]
  show ?thesis by (simp add: from_download_def)
qed

lemma gets_pipeline: "gets_to W Pipeline (from_pipeline W)"
  using gets_to_step [OF gets_deploy, of W "ensure_deployment W" "\<lambda>u. from_pipeline W" Pipeline]
    ensure_deployment_sum
  by (simp add: from_deploy_def)

lemma gets_index: "gets_to W Index (from_index W)"
  using gets_to_step [OF gets_pipeline, of W "\<lambda>st. Some (ingest_pipeline W st)" "\<lambda>u. from_index W" Index]
    ingest_pipeline_sum
  by (simp add: from_pipeline_def)

lemma gets_restart: "gets_to W Restart (from_restart W)"
  using gets_to_step [OF gets_index, of W "\<lambda>st. Some (index_mapping W st)" "\<lambda>u. from_restart W" Restart]
    index_mapping_sum
  by (simp add: from_index_def)

lemma prints_no_http: "list_all is_print ps \<Longrightarrow> Http m url a p took status body \<notin> set ps"
  by (auto simp: list_all_iff)

lemma prints_no_run: "list_all is_print ps \<Longrightarrow> Run cmd took rc out err \<notin> set ps"
  by (auto simp: list_all_iff)

lemma root_only_reach:
  "emits W k (Http m (ES_URL W @ ''/'') a p took status body) \<Longrightarrow> k = Reach"
  by (cases k) (auto simp: model_url_def)

lemma root_not_before: "\<not> before W Reach (Http m (ES_URL W @ ''/'') a p took status body)"
proof
  assume "before W Reach (Http m (ES_URL W @ ''/'') a p took status body)"
  then obtain k where k: "stage_no k < stage_no Reach"
    "emits W k (Http m (ES_URL W @ ''/'') a p took status body)"
    by (auto simp: before_def)
  from k(2) have "k = Reach" by (rule root_only_reach)
  with k(1) show False by simp
qed

lemma root_not_since:
  "stage_no Reach < stage_no X \<Longrightarrow> \<not> since W X (Http m (ES_URL W @ ''/'') a p took status body)"
proof
  assume lt: "stage_no Reach < stage_no X"
    and "since W X (Http m (ES_URL W @ ''/'') a p took status body)"
  then obtain k where k: "stage_no X \<le> stage_no k"
    "emits W k (Http m (ES_URL W @ ''/'') a p took status body)"
    by (auto simp: since_def)
  from k(2) have "k = Reach" by (rule root_only_reach)
  with k(1) lt show False by simp
qed

lemma not_code_3: "stage_no Reach < stage_no X \<Longrightarrow> \<not> codes_since W X 3"
  unfolding codes_since_def
proof
  assume lt: "stage_no Reach < stage_no X"
    and "\<exists>k. stage_no X \<le> stage_no k \<and> 3 \<in> stage_codes W k"
  then obtain k where k: "stage_no X \<le> stage_no k" "3 \<in> stage_codes W k" by blast
  with lt show False by (cases k) (auto split: if_splits)
qed

text \<open>
  Claim C3. If the reachability check, the GET on the root of the control API, comes back
  with a status other than 200, then \<open>main\<close> returns 3 and nothing but output follows the
  check: no further request, command or sleep. The code 3 is this step's alone: \<open>main\<close>
  returns 3 only when the root GET came back with a status other than 200.
\<close>

theorem unreachable_api_stops_the_run:
  assumes run: "main W = Some (r, s)"
  shows
    "(Http GET (ES_URL W @ ''/'') a p took status body \<in> set (trace s) \<and> status \<noteq> 200 \<longrightarrow>
        r = Exit 3 \<and>
        (\<exists>pre post. trace s = pre @ Http GET (ES_URL W @ ''/'') a p took status body # post \<and>
                     list_all is_print post)) \<and>
     (r = Exit 3 \<longrightarrow>
        (\<exists>took' status' body'. status' \<noteq> 200 \<and>
           Http GET (ES_URL W @ ''/'') (auth W) None took' status' body' \<in> set (trace s)))"
proof -
  let ?e = "Http GET (ES_URL W @ ''/'') a p took status body"
  from gets_reach [of W] consider
    (stopped) n s' where "main W = Some (Exit n, s')" "codes_before W Reach n"
      "list_all (before W Reach) (trace s')"
    | (reached) s1 where "main W = from_reach W s1" "list_all (before W Reach) (trace s1)"
    unfolding gets_to_def by blast
  then show ?thesis
  proof cases
    case stopped
    with run have s: "s' = s" "r = Exit n" by simp_all
    have "?e \<notin> set (trace s)"
    proof
      assume "?e \<in> set (trace s)"
      with stopped(3) s have "before W Reach ?e" by (simp add: list_all_iff)
      then show False by (simp add: root_not_before)
    qed
    moreover have "n \<noteq> 3"
    proof
      assume "n = 3"
      with stopped(2) obtain k where "stage_no k < stage_no Reach" "3 \<in> stage_codes W k"
        unfolding codes_before_def by blast
      then show False by (cases k) (auto split: if_splits)
    qed
    ultimately show ?thesis using s by simp
  next
    case reached
    obtain took1 status1 body1 ps qs rest st' where
      c: "reachability W s1 = (if status1 \<noteq> 200 then Exit 3 else Val (), st')"
         "trace st' = trace s1 @ ps @
            Http GET (ES_URL W @ ''/'') (auth W) None took1 status1 body1 # qs @ rest"
         "list_all is_print ps" "list_all is_print qs"
         "status1 \<noteq> 200 \<longrightarrow> rest = []"
         "status1 = 200 \<longrightarrow>
            (\<exists>took' status' body' rs.
               rest = Http GET (ES_URL W @ ''/_license?pretty'') (auth W) None took' status' body' # rs \<and>
               list_all is_print rs)"
      by (rule reachability_E [of W s1])
    have early: "?e \<notin> set (trace s1)"
    proof
      assume "?e \<in> set (trace s1)"
      with reached(2) have "before W Reach ?e" by (simp add: list_all_iff)
      then show False by (simp add: root_not_before)
    qed
    show ?thesis
    proof (cases "status1 = 200")
      case False
      with reached(1) c(1) run have s: "s = st'" "r = Exit 3"
        by (simp_all add: from_reach_def)
      from False c(5) have rest: "rest = []" by simp
      have "?e \<in> set (trace s) \<longrightarrow>
              (\<exists>pre post. trace s = pre @ ?e # post \<and> list_all is_print post)"
      proof
        assume "?e \<in> set (trace s)"
        with s c(2) rest early prints_no_http [OF c(3)] prints_no_http [OF c(4)]
        have "?e = Http GET (ES_URL W @ ''/'') (auth W) None took1 status1 body1" by auto
        with s c(2) rest have "trace s = (trace s1 @ ps) @ ?e # qs" by simp
        with c(4) show "\<exists>pre post. trace s = pre @ ?e # post \<and> list_all is_print post" by blast
      qed
      moreover have "Http GET (ES_URL W @ ''/'') (auth W) None took1 status1 body1 \<in> set (trace s)"
        using s c(2) by simp
      ultimately show ?thesis using s False by blast
    next
      case True
      with c(6) obtain took2 status2 body2 rs where
        rest: "rest = Http GET (ES_URL W @ ''/_license?pretty'') (auth W) None took2 status2 body2 # rs"
          "list_all is_print rs"
        by blast
      from True reached(1) c(1) run have m: "from_models W st' = Some (r, s)"
        by (simp add: from_reach_def)
      from from_models_run [of W st'] m obtain n where
        n: "r = Exit n" "adds (since W Models) st' s" "codes_since W Models n"
        by auto
      from n(2) obtain es where es: "trace s = trace st' @ es" "list_all (since W Models) es"
        by (auto simp: adds_def)
      have late: "?e \<notin> set es"
      proof
        assume "?e \<in> set es"
        with es(2) have "since W Models ?e" by (simp add: list_all_iff)
        then show False by (simp add: root_not_since)
      qed
      have "\<not> (?e \<in> set (trace s) \<and> status \<noteq> 200)"
      proof
        assume h: "?e \<in> set (trace s) \<and> status \<noteq> 200"
        with es(1) c(2) rest early late prints_no_http [OF c(3)] prints_no_http [OF c(4)]
          prints_no_http [OF rest(2)]
        have "?e = Http GET (ES_URL W @ ''/'') (auth W) None took1 status1 body1" by auto
        with h True show False by simp
      qed
      moreover have "r \<noteq> Exit 3"
        using n(1, 3) not_code_3 [of Models W] by auto
      ultimately show ?thesis by blast
    qed
  qed
qed

lemma locked_run:
  "main locked_world =
     Some (Exit 3,
       \<lparr>trace = heading_ev ''0) Mode'' @ [Print ''Fix mode: OFF (read-only)''] @
                heading_ev ''1) Docker: containers & basic status'' @
                [Run docker_ps 0 0 ''up'' [], Print ''up''] @
                heading_ev ''2) Elasticsearch: reachability + license'' @
                [Http GET ''http://localhost:9200/'' (Some (''elastic'', ''changeme'')) None 0 401
                   ''unauthorized'',
                 Print ''[FAIL] Elasticsearch not reachable or auth failed (HTTP 401)'',
                 Print ''unauthorized''],
        now = 0\<rparr>)"
  by (simp add: main_def locked_world_def quiet_world_def fix_mode_def thn_def docker_status_def
        reachability_def run_def http_def heading_def heading_ev_def print_def fail_def
        ES_URL_def env_def rstrip_slash_def auth_def ES_USER_def ES_PASS_def Let_def
        str_int_def digits.simps)

theorem unreachable_api_stops_the_run_witness:
  "(\<exists>s. main locked_world = Some (Exit 3, s) \<and>
      Http GET (ES_URL locked_world @ ''/'') (Some (''elastic'', ''changeme'')) None 0 401
        ''unauthorized'' \<in> set (trace s) \<and> (401::int) \<noteq> 200 \<and>
      (\<exists>pre post. trace s =
          pre @ Http GET (ES_URL locked_world @ ''/'') (Some (''elastic'', ''changeme'')) None 0 401
                  ''unauthorized'' # post \<and> list_all is_print post))"
proof -
  let ?s = "snd (the (main locked_world))"
  have run: "main locked_world = Some (Exit 3, ?s)" by (simp add: locked_run)
  have url: "ES_URL locked_world = ''http://localhost:9200''"
    by (simp add: ES_URL_def env_def rstrip_slash_def locked_world_def quiet_world_def)
  have ev: "Http GET (ES_URL locked_world @ ''/'') (Some (''elastic'', ''changeme'')) None 0 401
        ''unauthorized'' \<in> set (trace ?s)"
    by (simp add: locked_run url)
  from unreachable_api_stops_the_run [OF run, of "Some (''elastic'', ''changeme'')" None 0 401
      "''unauthorized''"] ev run
  show ?thesis by auto
qed

lemmas eval_defs =
  main_def fix_mode_def thn_def docker_status_def reachability_def list_models_def
  download_model_def ensure_deployment_def ingest_pipeline_def index_mapping_def
  restart_logstash_def restart_and_count_def logstash_evidence_def download_ready_def
  deploy_status_def parse_models_def parse_stats_def wait_until_def wait_loop.simps
  run_def http_def sleep_def heading_def print_def ok_def warn_def fail_def jdump_def
  docker_ps_def docker_logs_def compose_restart_def docker_restart_def
  ES_URL_def env_def rstrip_slash_def auth_def ES_USER_def ES_PASS_def INDEX_def
  PIPELINE_ID_def ELSER_MODEL_ID_def LS_SERVICE_def model_url_def start_payload_def
  pipeline_payload_def index_payload_def needles_def last_n_def calls_def
  str_int_def digits.simps Let_def

lemma fix_run:
  "map_option (\<lambda>(r, s). (r, calls (trace s), now s)) (main fix_world) =
   Some (Exit 0,
     [Run docker_ps 0 0 ''up'' [],
      Http GET ''http://localhost:9200/'' (auth fix_world) None 1 200 ''{}'',
      Http GET ''http://localhost:9200/_license?pretty'' (auth fix_world) None 1 200 ''{}'',
      Http GET ''http://localhost:9200/_ml/trained_models?size=200&pretty'' (auth fix_world) None
        1 200 ''models'',
      Http POST ''http://localhost:9200/_ml/trained_models/.elser_model_2/deployment/_start?pretty''
        (auth fix_world) (Some start_payload) 1 409 ''conflict'',
      Http GET ''http://localhost:9200/_ml/trained_models/.elser_model_2/_stats?pretty''
        (auth fix_world) None 1 200 ''stats'',
      Http PUT ''http://localhost:9200/_ingest/pipeline/elser_oracle_pipeline?pretty''
        (auth fix_world) (Some (pipeline_payload fix_world)) 1 200 ''{}'',
      Http DELETE ''http://localhost:9200/oracle_elser_index?pretty'' (auth fix_world) None
        1 404 ''no such index'',
      Http PUT ''http://localhost:9200/oracle_elser_index?pretty'' (auth fix_world)
        (Some index_payload) 1 200 ''{}'',
      Run (compose_restart fix_world) 2 1 [] ''no such service'',
      Run (docker_restart fix_world) 2 1 [] ''no such service'',
      Sleep 20,
      Http GET ''http://localhost:9200/oracle_elser_index/_count?pretty'' (auth fix_world) None
        1 200 ''{}'',
      Run (docker_logs fix_world) 0 0 ''up'' []],
     33)"
  by (simp add: eval_defs fix_world_def)

lemma not_in_before:
  assumes "list_all (before W X) tr" and "\<And>k. emits W k e \<Longrightarrow> stage_no X \<le> stage_no k"
  shows "e \<notin> set tr"
proof
  assume "e \<in> set tr"
  with assms(1) have "before W X e" by (simp add: list_all_iff)
  then obtain k where "stage_no k < stage_no X" "emits W k e" by (auto simp: before_def)
  with assms(2) [of k] show False by simp
qed

lemma not_in_since:
  assumes "list_all (since W Y) es" and "\<And>k. emits W k e \<Longrightarrow> stage_no k < stage_no Y"
  shows "e \<notin> set es"
proof
  assume "e \<in> set es"
  with assms(1) have "since W Y e" by (simp add: list_all_iff)
  then obtain k where "stage_no Y \<le> stage_no k" "emits W k e" by (auto simp: since_def)
  with assms(2) [of k] show False by simp
qed

lemma stage_of_code:
  "n \<in> stage_codes W k \<Longrightarrow>
     (n = 0 \<longrightarrow> k = Logs) \<and> (n = 2 \<longrightarrow> k = Docker) \<and> (n = 3 \<longrightarrow> k = Reach) \<and>
     (n = 4 \<longrightarrow> k = Models) \<and> (n = 5 \<or> n = 6 \<longrightarrow> k = Download \<and> fix_mode W) \<and>
     (n = 7 \<or> n = 8 \<longrightarrow> k = Deploy \<and> fix_mode W) \<and> (n = 9 \<longrightarrow> k = Pipeline \<and> fix_mode W) \<and>
     (n = 10 \<longrightarrow> k = Index \<and> fix_mode W)"
  by (cases k) (auto split: if_splits)

lemma code_not_before:
  assumes "codes_before W X n" and "\<And>k. n \<in> stage_codes W k \<Longrightarrow> stage_no X \<le> stage_no k"
  shows False
proof -
  from assms(1) obtain k where "stage_no k < stage_no X" "n \<in> stage_codes W k"
    by (auto simp: codes_before_def)
  with assms(2) [of k] show False by simp
qed





lemma calls_subset: "e \<in> set (calls tr) \<Longrightarrow> e \<in> set tr"
  by (simp add: calls_def)

lemma fix_urls:
  "ES_URL fix_world = ''http://localhost:9200''"
  "model_url fix_world = ''http://localhost:9200/_ml/trained_models/.elser_model_2''"
  "INDEX fix_world = ''oracle_elser_index''"
  "fix_mode fix_world"
  by (simp_all add: model_url_def ES_URL_def ELSER_MODEL_ID_def INDEX_def env_def rstrip_slash_def
        fix_mode_def fix_world_def)

lemma fix_run_E:
  obtains s where "main fix_world = Some (Exit 0, s)"
    "calls (trace s) =
     [Run docker_ps 0 0 ''up'' [],
      Http GET ''http://localhost:9200/'' (auth fix_world) None 1 200 ''{}'',
      Http GET ''http://localhost:9200/_license?pretty'' (auth fix_world) None 1 200 ''{}'',
      Http GET ''http://localhost:9200/_ml/trained_models?size=200&pretty'' (auth fix_world) None
        1 200 ''models'',
      Http POST ''http://localhost:9200/_ml/trained_models/.elser_model_2/deployment/_start?pretty''
        (auth fix_world) (Some start_payload) 1 409 ''conflict'',
      Http GET ''http://localhost:9200/_ml/trained_models/.elser_model_2/_stats?pretty''
        (auth fix_world) None 1 200 ''stats'',
      Http PUT ''http://localhost:9200/_ingest/pipeline/elser_oracle_pipeline?pretty''
        (auth fix_world) (Some (pipeline_payload fix_world)) 1 200 ''{}'',
      Http DELETE ''http://localhost:9200/oracle_elser_index?pretty'' (auth fix_world) None
        1 404 ''no such index'',
      Http PUT ''http://localhost:9200/oracle_elser_index?pretty'' (auth fix_world)
        (Some index_payload) 1 200 ''{}'',
      Run (compose_restart fix_world) 2 1 [] ''no such service'',
      Run (docker_restart fix_world) 2 1 [] ''no such service'',
      Sleep 20,
      Http GET ''http://localhost:9200/oracle_elser_index/_count?pretty'' (auth fix_world) None
        1 200 ''{}'',
      Run (docker_logs fix_world) 0 0 ''up'' []]"
  using fix_run by (cases "main fix_world") auto

lemma put_only_index:
  "emits W k (Http PUT u a (Some index_payload) took status body) \<Longrightarrow>
     k = Index \<and> fix_mode W \<and> u = ES_URL W @ ''/'' @ INDEX W @ ''?pretty'' \<and> a = auth W"
  by (cases k) (auto simp: pipeline_payload_def index_payload_def)

lemma delete_only_index:
  "emits W k (Http DELETE u a p took status body) \<Longrightarrow>
     k = Index \<and> fix_mode W \<and> u = ES_URL W @ ''/'' @ INDEX W @ ''?pretty'' \<and> a = auth W \<and> p = None"
  by (cases k) auto

text \<open>
  Claim C5. Wherever the PUT that creates the index is in the trace, the run is in fix
  mode and the DELETE of the same index comes directly before it, separated only by the
  printed response of the DELETE; whatever the DELETE came back with (a 404 too), the PUT
  follows. A status of the PUT other than 200 and 201 makes \<open>main\<close> return 10, and only
  that does; with 200 or 201 the run goes on to its end. The only DELETE a run ever sends
  is this one, and a run in fix mode that gets to the step (it returns 0 or 10) sends it.
\<close>

theorem index_is_deleted_then_created:
  assumes run: "main W = Some (r, s)"
  shows
    "(Http PUT u a (Some index_payload) took status body \<in> set (trace s) \<longrightarrow>
        fix_mode W \<and> u = ES_URL W @ ''/'' @ INDEX W @ ''?pretty'' \<and>
        (\<exists>pre post took_d status_d body_d.
           trace s = pre @ Http DELETE u (auth W) None took_d status_d body_d #
                     Print (jdump W body_d 600) #
                     Http PUT u a (Some index_payload) took status body # post) \<and>
        (status \<notin> {200, 201} \<longrightarrow> r = Exit 10) \<and>
        (status \<in> {200, 201} \<longrightarrow> r = Exit 0)) \<and>
     (Http DELETE u' a' p' took' status' body' \<in> set (trace s) \<longrightarrow>
        fix_mode W \<and> u' = ES_URL W @ ''/'' @ INDEX W @ ''?pretty'' \<and>
        (\<exists>pre post took_p status_p body_p.
           trace s = pre @ Http DELETE u' a' p' took' status' body' #
                     Print (jdump W body' 600) #
                     Http PUT u' (auth W) (Some index_payload) took_p status_p body_p # post)) \<and>
     (r = Exit 10 \<longrightarrow>
        (\<exists>took_p status_p body_p. status_p \<notin> {200, 201} \<and>
           Http PUT (ES_URL W @ ''/'' @ INDEX W @ ''?pretty'') (auth W) (Some index_payload)
             took_p status_p body_p \<in> set (trace s))) \<and>
     (fix_mode W \<and> (r = Exit 0 \<or> r = Exit 10) \<longrightarrow>
        (\<exists>took_d status_d body_d.
           Http DELETE (ES_URL W @ ''/'' @ INDEX W @ ''?pretty'') (auth W) None
             took_d status_d body_d \<in> set (trace s)))"
proof -
  let ?url = "ES_URL W @ ''/'' @ INDEX W @ ''?pretty''"
  let ?put = "Http PUT u a (Some index_payload) took status body"
  let ?del = "Http DELETE u' a' p' took' status' body'"
  have p_ge: "\<And>k. emits W k ?put \<Longrightarrow> stage_no Index \<le> stage_no k"
    and p_lt: "\<And>k. emits W k ?put \<Longrightarrow> stage_no k < stage_no Restart"
    and d_ge: "\<And>k. emits W k ?del \<Longrightarrow> stage_no Index \<le> stage_no k"
    and d_lt: "\<And>k. emits W k ?del \<Longrightarrow> stage_no k < stage_no Restart"
  proof -
    fix k
    { assume "emits W k ?put"
      then have "k = Index" using put_only_index by blast
      then show "stage_no Index \<le> stage_no k" and "stage_no k < stage_no Restart" by simp_all }
    { assume "emits W k ?del"
      then have "k = Index" using delete_only_index by blast
      then show "stage_no Index \<le> stage_no k" and "stage_no k < stage_no Restart" by simp_all }
  qed
  have c_ge: "\<And>k n. n \<in> stage_codes W k \<Longrightarrow> n = 0 \<or> n = 10 \<Longrightarrow> stage_no Index \<le> stage_no k"
  proof -
    fix k n assume "n \<in> stage_codes W k" "n = 0 \<or> n = 10"
    then have "k = Logs \<or> k = Index" using stage_of_code by blast
    then show "stage_no Index \<le> stage_no k" by auto
  qed
  from gets_index [of W] consider
    (stopped) n s' where "main W = Some (Exit n, s')" "codes_before W Index n"
      "list_all (before W Index) (trace s')"
    | (reached) s6 where "main W = from_index W s6" "list_all (before W Index) (trace s6)"
    unfolding gets_to_def by blast
  then show ?thesis
  proof cases
    case stopped
    with run have s: "s' = s" "r = Exit n" by simp_all
    have "?put \<notin> set (trace s')" using stopped(3) p_ge by (rule not_in_before)
    moreover have "?del \<notin> set (trace s')" using stopped(3) d_ge by (rule not_in_before)
    moreover have "n \<noteq> 0 \<and> n \<noteq> 10"
      using code_not_before [OF stopped(2)] c_ge by blast
    ultimately show ?thesis using s by simp
  next
    case reached
    have early1: "?put \<notin> set (trace s6)" using reached(2) p_ge by (rule not_in_before)
    have early2: "?del \<notin> set (trace s6)" using reached(2) d_ge by (rule not_in_before)
    note early = early1 early2
    show ?thesis
    proof (cases "fix_mode W")
      case False
      obtain ps s7 where
        i: "index_mapping W s6 = (Val (), s7)" "trace s7 = trace s6 @ ps" "list_all is_print ps"
        by (rule index_mapping_ro_E [OF False, of s6])
      from reached(1) i(1) run have m: "from_restart W s7 = Some (r, s)"
        by (simp add: from_index_def)
      from from_restart_run [of W s7] m have n: "r = Exit 0" "adds (since W Restart) s7 s"
        by auto
      from n(2) obtain es where es: "trace s = trace s7 @ es" "list_all (since W Restart) es"
        by (auto simp: adds_def)
      have "?put \<notin> set es" using es(2) p_lt by (rule not_in_since)
      moreover have "?del \<notin> set es" using es(2) d_lt by (rule not_in_since)
      ultimately
      have "?put \<notin> set (trace s)" "?del \<notin> set (trace s)"
        using es(1) i(2) early prints_no_http [OF i(3)] by simp_all
      with n(1) False show ?thesis by simp
    next
      case True
      obtain took_d status_d body_d took1 status1 body1 ps qs st' where
        i: "index_mapping W s6 = (if status1 \<notin> {200, 201} then Exit 10 else Val (), st')"
           "trace st' = trace s6 @ ps @
              Http DELETE ?url (auth W) None took_d status_d body_d #
              Print (jdump W body_d 600) #
              Http PUT ?url (auth W) (Some index_payload) took1 status1 body1 # qs"
           "list_all is_print ps" "list_all is_print qs"
        by (rule index_mapping_fix_E [OF True, of s6])
      let ?del1 = "Http DELETE ?url (auth W) None took_d status_d body_d"
      let ?put1 = "Http PUT ?url (auth W) (Some index_payload) took1 status1 body1"
      have "\<exists>es. r = (if status1 \<notin> {200, 201} then Exit 10 else Exit 0) \<and>
                 trace s = trace st' @ es \<and> ?put \<notin> set es \<and> ?del \<notin> set es"
      proof (cases "status1 \<notin> {200, 201}")
        case True
        with i(1) have "index_mapping W s6 = (Exit 10, st')" by simp
        with reached(1) run have "s = st'" "r = Exit 10"
          by (simp_all add: from_index_def)
        with True show ?thesis by simp
      next
        case False
        with i(1) have "index_mapping W s6 = (Val (), st')" by simp
        with reached(1) run have m: "from_restart W st' = Some (r, s)"
          by (simp add: from_index_def)
        from from_restart_run [of W st'] m have n: "r = Exit 0" "adds (since W Restart) st' s"
          by auto
        from n(2) obtain es where es: "trace s = trace st' @ es" "list_all (since W Restart) es"
          by (auto simp: adds_def)
        have "?put \<notin> set es" using es(2) p_lt by (rule not_in_since)
        moreover have "?del \<notin> set es" using es(2) d_lt by (rule not_in_since)
        ultimately show ?thesis using False n(1) es(1) by auto
      qed
      then obtain es where
        es: "r = (if status1 \<notin> {200, 201} then Exit 10 else Exit 0)"
            "trace s = trace st' @ es" "?put \<notin> set es" "?del \<notin> set es"
        by blast
      have tr: "trace s = (trace s6 @ ps) @ ?del1 # Print (jdump W body_d 600) # ?put1 # (qs @ es)"
        using es(2) i(2) by simp
      have isput: "?put \<in> set (trace s) \<longrightarrow> ?put = ?put1"
        using tr early(1) prints_no_http [OF i(3)] prints_no_http [OF i(4)] es(3) by auto
      have isdel: "?del \<in> set (trace s) \<longrightarrow> ?del = ?del1"
        using tr early(2) prints_no_http [OF i(3)] prints_no_http [OF i(4)] es(4) by auto
      have in1: "?put1 \<in> set (trace s)" "?del1 \<in> set (trace s)" using tr by simp_all
      have c1: "?put \<in> set (trace s) \<longrightarrow>
        fix_mode W \<and> u = ?url \<and>
        (\<exists>pre post took_d status_d body_d.
           trace s = pre @ Http DELETE u (auth W) None took_d status_d body_d #
                     Print (jdump W body_d 600) #
                     Http PUT u a (Some index_payload) took status body # post) \<and>
        (status \<notin> {200, 201} \<longrightarrow> r = Exit 10) \<and>
        (status \<in> {200, 201} \<longrightarrow> r = Exit 0)"
      proof
        assume "?put \<in> set (trace s)"
        with isput have eq: "u = ?url" "a = auth W" "took = took1" "status = status1" "body = body1"
          by simp_all
        from tr eq have "\<exists>pre post took_d status_d body_d.
           trace s = pre @ Http DELETE u (auth W) None took_d status_d body_d #
                     Print (jdump W body_d 600) #
                     Http PUT u a (Some index_payload) took status body # post"
          by blast
        with True eq es(1) show "fix_mode W \<and> u = ?url \<and>
          (\<exists>pre post took_d status_d body_d.
             trace s = pre @ Http DELETE u (auth W) None took_d status_d body_d #
                       Print (jdump W body_d 600) #
                       Http PUT u a (Some index_payload) took status body # post) \<and>
          (status \<notin> {200, 201} \<longrightarrow> r = Exit 10) \<and>
          (status \<in> {200, 201} \<longrightarrow> r = Exit 0)"
          by simp
      qed
      have c2: "?del \<in> set (trace s) \<longrightarrow>
        fix_mode W \<and> u' = ?url \<and>
        (\<exists>pre post took_p status_p body_p.
           trace s = pre @ Http DELETE u' a' p' took' status' body' #
                     Print (jdump W body' 600) #
                     Http PUT u' (auth W) (Some index_payload) took_p status_p body_p # post)"
      proof
        assume "?del \<in> set (trace s)"
        with isdel have eq: "u' = ?url" "a' = auth W" "p' = None" "took' = took_d"
          "status' = status_d" "body' = body_d"
          by simp_all
        from tr eq have "\<exists>pre post took_p status_p body_p.
           trace s = pre @ Http DELETE u' a' p' took' status' body' #
                     Print (jdump W body' 600) #
                     Http PUT u' (auth W) (Some index_payload) took_p status_p body_p # post"
          by blast
        with True eq show "fix_mode W \<and> u' = ?url \<and>
          (\<exists>pre post took_p status_p body_p.
             trace s = pre @ Http DELETE u' a' p' took' status' body' #
                       Print (jdump W body' 600) #
                       Http PUT u' (auth W) (Some index_payload) took_p status_p body_p # post)"
          by simp
      qed
      have c3: "r = Exit 10 \<longrightarrow>
        (\<exists>took_p status_p body_p. status_p \<notin> {200, 201} \<and>
           Http PUT ?url (auth W) (Some index_payload) took_p status_p body_p \<in> set (trace s))"
      proof
        assume "r = Exit 10"
        with es(1) have "status1 \<notin> {200, 201}" by (auto split: if_splits)
        with in1(1) show "\<exists>took_p status_p body_p. status_p \<notin> {200, 201} \<and>
           Http PUT ?url (auth W) (Some index_payload) took_p status_p body_p \<in> set (trace s)"
          by blast
      qed
      have c4: "fix_mode W \<and> (r = Exit 0 \<or> r = Exit 10) \<longrightarrow>
        (\<exists>took_d status_d body_d.
           Http DELETE ?url (auth W) None took_d status_d body_d \<in> set (trace s))"
        using in1(2) by blast
      from c1 c2 c3 c4 show ?thesis by (intro conjI)
    qed
  qed
qed

lemma other_urls:
  "ES_URL refused_world = ''http://localhost:9200''"
  "model_url refused_world = ''http://localhost:9200/_ml/trained_models/.elser_model_2''"
  "fix_mode refused_world"
  "ES_URL full_disk_world = ''http://localhost:9200''"
  "INDEX full_disk_world = ''oracle_elser_index''"
  "fix_mode full_disk_world"
  by (simp_all add: model_url_def ES_URL_def ELSER_MODEL_ID_def INDEX_def env_def rstrip_slash_def
        fix_mode_def fix_world_def refused_world_def full_disk_world_def)


lemma full_disk_run:
  "map_option (\<lambda>(r, s). (r, calls (trace s))) (main full_disk_world) =
   Some (Exit 10,
     [Run docker_ps 0 0 ''up'' [],
      Http GET ''http://localhost:9200/'' (auth full_disk_world) None 1 200 ''{}'',
      Http GET ''http://localhost:9200/_license?pretty'' (auth full_disk_world) None 1 200 ''{}'',
      Http GET ''http://localhost:9200/_ml/trained_models?size=200&pretty'' (auth full_disk_world)
        None 1 200 ''models'',
      Http POST ''http://localhost:9200/_ml/trained_models/.elser_model_2/deployment/_start?pretty''
        (auth full_disk_world) (Some start_payload) 1 409 ''conflict'',
      Http GET ''http://localhost:9200/_ml/trained_models/.elser_model_2/_stats?pretty''
        (auth full_disk_world) None 1 200 ''stats'',
      Http PUT ''http://localhost:9200/_ingest/pipeline/elser_oracle_pipeline?pretty''
        (auth full_disk_world) (Some (pipeline_payload full_disk_world)) 1 200 ''{}'',
      Http DELETE ''http://localhost:9200/oracle_elser_index?pretty'' (auth full_disk_world) None
        1 404 ''no such index'',
      Http PUT ''http://localhost:9200/oracle_elser_index?pretty'' (auth full_disk_world)
        (Some index_payload) 1 500 ''disk full''])"
  by (simp add: eval_defs fix_world_def full_disk_world_def)



text \<open>
  The witness: in \<open>fix_world\<close> the DELETE comes back with 404 and the PUT with 200, and
  the run ends with 0; in \<open>full_disk_world\<close> the PUT comes back with 500 and \<open>main\<close>
  returns 10.
\<close>

theorem index_is_deleted_then_created_witness:
  "(\<exists>s. main fix_world = Some (Exit 0, s) \<and> fix_mode fix_world \<and>
     Http PUT (ES_URL fix_world @ ''/'' @ INDEX fix_world @ ''?pretty'') (auth fix_world)
       (Some index_payload) 1 200 ''{}'' \<in> set (trace s) \<and>
     Http DELETE (ES_URL fix_world @ ''/'' @ INDEX fix_world @ ''?pretty'') (auth fix_world) None
       1 404 ''no such index'' \<in> set (trace s) \<and>
     (\<exists>pre post took_p status_p body_p.
        trace s =
          pre @ Http DELETE (ES_URL fix_world @ ''/'' @ INDEX fix_world @ ''?pretty'')
                  (auth fix_world) None 1 404 ''no such index'' #
          Print (jdump fix_world ''no such index'' 600) #
          Http PUT (ES_URL fix_world @ ''/'' @ INDEX fix_world @ ''?pretty'') (auth fix_world)
            (Some index_payload) took_p status_p body_p # post)) \<and>
   (\<exists>s. main full_disk_world = Some (Exit 10, s) \<and>
     Http PUT (ES_URL full_disk_world @ ''/'' @ INDEX full_disk_world @ ''?pretty'')
       (auth full_disk_world) (Some index_payload) 1 500 ''disk full'' \<in> set (trace s) \<and>
     (500::int) \<notin> {200, 201} \<and>
     (\<exists>took_d status_d body_d.
        Http DELETE (ES_URL full_disk_world @ ''/'' @ INDEX full_disk_world @ ''?pretty'')
          (auth full_disk_world) None took_d status_d body_d \<in> set (trace s)))"
proof -
  let ?u = "ES_URL fix_world @ ''/'' @ INDEX fix_world @ ''?pretty''"
  obtain s where s: "main fix_world = Some (Exit 0, s)"
    and c: "Http PUT ?u (auth fix_world) (Some index_payload) 1 200 ''{}'' \<in> set (calls (trace s))"
       "Http DELETE ?u (auth fix_world) None 1 404 ''no such index'' \<in> set (calls (trace s))"
    by (rule fix_run_E) (simp add: fix_urls)
  from c have e: "Http PUT ?u (auth fix_world) (Some index_payload) 1 200 ''{}'' \<in> set (trace s)"
    "Http DELETE ?u (auth fix_world) None 1 404 ''no such index'' \<in> set (trace s)"
    by (simp_all add: calls_subset)
  from index_is_deleted_then_created [OF s, of ?u "auth fix_world" 1 200 "''{}''" ?u "auth fix_world"
      None 1 404 "''no such index''"] e s
  have 1: "\<exists>s. main fix_world = Some (Exit 0, s) \<and> fix_mode fix_world \<and>
     Http PUT ?u (auth fix_world) (Some index_payload) 1 200 ''{}'' \<in> set (trace s) \<and>
     Http DELETE ?u (auth fix_world) None 1 404 ''no such index'' \<in> set (trace s) \<and>
     (\<exists>pre post took_p status_p body_p.
        trace s =
          pre @ Http DELETE ?u (auth fix_world) None 1 404 ''no such index'' #
          Print (jdump fix_world ''no such index'' 600) #
          Http PUT ?u (auth fix_world) (Some index_payload) took_p status_p body_p # post)"
    by auto
  let ?v = "ES_URL full_disk_world @ ''/'' @ INDEX full_disk_world @ ''?pretty''"
  from full_disk_run obtain s' where s': "main full_disk_world = Some (Exit 10, s')"
    and c': "Http PUT ?v (auth full_disk_world) (Some index_payload) 1 500 ''disk full''
               \<in> set (calls (trace s'))"
    by (cases "main full_disk_world") (auto simp: other_urls)
  from c' have e': "Http PUT ?v (auth full_disk_world) (Some index_payload) 1 500 ''disk full''
               \<in> set (trace s')"
    by (rule calls_subset)
  from index_is_deleted_then_created [OF s', of ?v "auth full_disk_world" 1 500 "''disk full''"]
    e' s' other_urls(6)
  have 2: "\<exists>s. main full_disk_world = Some (Exit 10, s) \<and>
     Http PUT ?v (auth full_disk_world) (Some index_payload) 1 500 ''disk full'' \<in> set (trace s) \<and>
     (500::int) \<notin> {200, 201} \<and>
     (\<exists>took_d status_d body_d.
        Http DELETE ?v (auth full_disk_world) None took_d status_d body_d \<in> set (trace s))"
    by auto
  from 1 2 show ?thesis by (rule conjI)
qed

lemma count_not_list:
  "INDEX W @ ''/_count?pretty'' \<noteq> ''_ml/trained_models?size=200&pretty''"
proof
  assume "INDEX W @ ''/_count?pretty'' = ''_ml/trained_models?size=200&pretty''"
  then have "rev (INDEX W @ ''/_count?pretty'') = rev ''_ml/trained_models?size=200&pretty''"
    by (rule arg_cong)
  then show False by simp
qed

lemma list_only_models:
  "emits W k (Http GET (ES_URL W @ ''/_ml/trained_models?size=200&pretty'') a p took status body) \<Longrightarrow>
     k = Models \<and> a = auth W \<and> p = None"
  using count_not_list [of W] by (cases k) (auto simp: model_url_def)

lemma download_only:
  "emits W k (Http POST (model_url W @ ''/_download?pretty'') a p took status body) \<Longrightarrow>
     k = Download \<and> fix_mode W"
  by (cases k) auto

lemma from_deploy_first:
  assumes "from_deploy W st = Some (r, s)"
  shows "\<exists>mid e post. trace s = trace st @ mid @ e # post \<and> list_all is_print mid \<and>
           (if fix_mode W
            then \<exists>t c b. e = Http POST (model_url W @ ''/deployment/_start?pretty'') (auth W)
                              (Some start_payload) t c b
            else \<exists>t c b. e = Http GET (model_url W @ ''/_stats?pretty'') (auth W) None t c b)"
proof (cases "fix_mode W")
  case False
  obtain took1 status1 body1 s5 where
    d: "ensure_deployment W st = Some (Val (), s5)"
       "trace s5 = trace st @
          [Print ''[OK] Skipping deployment changes (read-only mode).'',
           Http GET (model_url W @ ''/_stats?pretty'') (auth W) None took1 status1 body1]"
    by (rule ensure_deployment_ro_E [OF False, of st])
  from assms d(1) have m: "from_pipeline W s5 = Some (r, s)" by (simp add: from_deploy_def)
  from from_pipeline_run [of W s5] m obtain es where "trace s = trace s5 @ es"
    by (auto simp: adds_def)
  with d(2) have "trace s = trace st @
      [Print ''[OK] Skipping deployment changes (read-only mode).''] @
      Http GET (model_url W @ ''/_stats?pretty'') (auth W) None took1 status1 body1 # es"
    by simp
  moreover have "list_all is_print [Print ''[OK] Skipping deployment changes (read-only mode).'']"
    by simp
  ultimately have "trace s = trace st @
      [Print ''[OK] Skipping deployment changes (read-only mode).''] @
      Http GET (model_url W @ ''/_stats?pretty'') (auth W) None took1 status1 body1 # es \<and>
    list_all is_print [Print ''[OK] Skipping deployment changes (read-only mode).''] \<and>
    (\<exists>t c b. Http GET (model_url W @ ''/_stats?pretty'') (auth W) None took1 status1 body1 =
       Http GET (model_url W @ ''/_stats?pretty'') (auth W) None t c b)"
    by blast
  then have "\<exists>mid e post. trace s = trace st @ mid @ e # post \<and> list_all is_print mid \<and>
      (\<exists>t c b. e = Http GET (model_url W @ ''/_stats?pretty'') (auth W) None t c b)"
    by (intro exI)
  with False show ?thesis by simp
next
  case True
  obtain took1 status1 body1 ps rest r' st' where
    d: "ensure_deployment W st = Some (r', st')"
       "trace st' = trace st @ ps @
          Http POST (model_url W @ ''/deployment/_start?pretty'') (auth W) (Some start_payload)
            took1 status1 body1 # Print (jdump W body1 1600) # rest"
       "list_all is_print ps"
    by (rule ensure_deployment_fix_E [OF True, of st])
  have "\<exists>es. trace s = trace st' @ es"
  proof (cases r')
    case (Val u)
    with assms d(1) have "from_pipeline W st' = Some (r, s)" by (simp add: from_deploy_def)
    with from_pipeline_run [of W st'] show ?thesis by (auto simp: adds_def)
  next
    case (Exit n)
    with assms d(1) show ?thesis by (simp add: from_deploy_def)
  next
    case (Raise e)
    with assms d(1) show ?thesis by (simp add: from_deploy_def)
  qed
  then obtain es where "trace s = trace st' @ es" by blast
  with d(2) have "trace s = trace st @ ps @
      Http POST (model_url W @ ''/deployment/_start?pretty'') (auth W) (Some start_payload)
        took1 status1 body1 # (Print (jdump W body1 1600) # rest @ es)"
    by simp
  with d(3) have "\<exists>mid e post. trace s = trace st @ mid @ e # post \<and> list_all is_print mid \<and>
      (\<exists>t c b. e = Http POST (model_url W @ ''/deployment/_start?pretty'') (auth W)
                         (Some start_payload) t c b)"
    by blast
  with True show ?thesis by simp
qed

lemma trace_emitted:
  assumes "main W = Some (r, s)" and "e \<in> set (trace s)"
  shows "\<exists>k. emits W k e"
proof -
  from main_run [of W] assms(1) have "list_all (since W Banner) (trace s)" by auto
  with assms(2) have "since W Banner e" by (simp add: list_all_iff)
  then show ?thesis by (auto simp: since_def)
qed

text \<open>
  What the script does with the identifiers it has read from the listing. If the listing
  came back with 200 and the target is among them, then in either mode no download request
  is sent anywhere in the run, and between the listing and the first request of the
  deployment step (the start request in fix mode, the statistics query otherwise) there is
  nothing but output. A download request in the trace means fix mode and a listing that
  came back with 200 in which the script did not find the target.
\<close>

lemma found_model_is_not_downloaded:
  assumes run: "main W = Some (r, s)"
  shows
    "(Http GET (ES_URL W @ ''/_ml/trained_models?size=200&pretty'') a p took 200 body \<in> set (trace s) \<and>
      JStr (ELSER_MODEL_ID W) \<in> set (parse_models W body) \<longrightarrow>
        (\<forall>x y t c b. Http POST (model_url W @ ''/_download?pretty'') x y t c b \<notin> set (trace s)) \<and>
        (\<exists>pre mid e post.
           trace s = pre @ Http GET (ES_URL W @ ''/_ml/trained_models?size=200&pretty'') a p took 200 body #
                     mid @ e # post \<and>
           list_all is_print mid \<and>
           (if fix_mode W
            then \<exists>t c b. e = Http POST (model_url W @ ''/deployment/_start?pretty'') (auth W)
                              (Some start_payload) t c b
            else \<exists>t c b. e = Http GET (model_url W @ ''/_stats?pretty'') (auth W) None t c b))) \<and>
     (Http POST (model_url W @ ''/_download?pretty'') a' p' took' status' body' \<in> set (trace s) \<longrightarrow>
        fix_mode W \<and>
        (\<exists>took1 body1.
           Http GET (ES_URL W @ ''/_ml/trained_models?size=200&pretty'') (auth W) None took1 200 body1
             \<in> set (trace s) \<and>
           JStr (ELSER_MODEL_ID W) \<notin> set (parse_models W body1)))"
proof -
  let ?lu = "ES_URL W @ ''/_ml/trained_models?size=200&pretty''"
  let ?du = "model_url W @ ''/_download?pretty''"
  let ?g = "Http GET ?lu a p took 200 body"
  let ?goal1 = "?g \<in> set (trace s) \<and> JStr (ELSER_MODEL_ID W) \<in> set (parse_models W body) \<longrightarrow>
        (\<forall>x y t c b. Http POST ?du x y t c b \<notin> set (trace s)) \<and>
        (\<exists>pre mid e post.
           trace s = pre @ ?g # mid @ e # post \<and> list_all is_print mid \<and>
           (if fix_mode W
            then \<exists>t c b. e = Http POST (model_url W @ ''/deployment/_start?pretty'') (auth W)
                              (Some start_payload) t c b
            else \<exists>t c b. e = Http GET (model_url W @ ''/_stats?pretty'') (auth W) None t c b))"
  let ?goal2 = "Http POST ?du a' p' took' status' body' \<in> set (trace s) \<longrightarrow>
        fix_mode W \<and>
        (\<exists>took1 body1. Http GET ?lu (auth W) None took1 200 body1 \<in> set (trace s) \<and>
           JStr (ELSER_MODEL_ID W) \<notin> set (parse_models W body1))"
  have g_ge: "\<And>k. emits W k ?g \<Longrightarrow> stage_no Models \<le> stage_no k"
    and g_lt: "\<And>k. emits W k ?g \<Longrightarrow> stage_no k < stage_no Download"
  proof -
    fix k assume "emits W k ?g"
    then have "k = Models" using list_only_models by blast
    then show "stage_no Models \<le> stage_no k" and "stage_no k < stage_no Download" by simp_all
  qed
  have d_ge: "\<And>k x y t c b. emits W k (Http POST ?du x y t c b) \<Longrightarrow> stage_no Models \<le> stage_no k"
    and d_lt: "\<And>k x y t c b. emits W k (Http POST ?du x y t c b) \<Longrightarrow> stage_no k < stage_no Deploy"
  proof -
    fix k x y t c b assume "emits W k (Http POST ?du x y t c b)"
    then have "k = Download" using download_only by blast
    then show "stage_no Models \<le> stage_no k" and "stage_no k < stage_no Deploy" by simp_all
  qed
  have fixm: "Http POST ?du a' p' took' status' body' \<in> set (trace s) \<longrightarrow> fix_mode W"
    using trace_emitted [OF run] download_only by blast
  from gets_models [of W] consider
    (stopped) n s' where "main W = Some (Exit n, s')" "list_all (before W Models) (trace s')"
    | (reached) s3 where "main W = from_models W s3" "list_all (before W Models) (trace s3)"
    unfolding gets_to_def by blast
  then show ?thesis
  proof cases
    case stopped
    with run have s: "s' = s" by simp
    have "?g \<notin> set (trace s')" using stopped(2) g_ge by (rule not_in_before)
    moreover have "Http POST ?du a' p' took' status' body' \<notin> set (trace s')"
      using stopped(2) d_ge by (rule not_in_before)
    ultimately show ?thesis using s by simp
  next
    case reached
    obtain took1 status1 body1 ps qs st' where
      l: "list_models W s3 =
            (if status1 \<noteq> 200 then Exit 4
             else Val (JStr (ELSER_MODEL_ID W) \<in> set (parse_models W body1)), st')"
         "trace st' = trace s3 @ ps @ Http GET ?lu (auth W) None took1 status1 body1 # qs"
         "list_all is_print ps" "list_all is_print qs"
      by (rule list_models_E [of W s3])
    let ?g1 = "Http GET ?lu (auth W) None took1 status1 body1"
    have early_g: "?g \<notin> set (trace s3)" using reached(2) g_ge by (rule not_in_before)
    have early_d: "\<And>x y t c b. Http POST ?du x y t c b \<notin> set (trace s3)"
      using reached(2) d_ge by (rule not_in_before)
    have in_st': "?g \<in> set (trace st') \<longrightarrow> ?g = ?g1"
      using l(2) early_g prints_no_http [OF l(3)] prints_no_http [OF l(4)] by auto
    have d_st': "\<And>x y t c b. Http POST ?du x y t c b \<notin> set (trace st')"
      using l(2) early_d prints_no_http [OF l(3)] prints_no_http [OF l(4)] by auto
    show ?thesis
    proof (cases "status1 = 200")
      case False
      with l(1) have "list_models W s3 = (Exit 4, st')" by simp
      with reached(1) run have s: "s = st'" by (simp add: from_models_def)
      from in_st' False s have "?g \<notin> set (trace s)" by auto
      with d_st' s show ?thesis by simp
    next
      case ok: True
      let ?have = "JStr (ELSER_MODEL_ID W) \<in> set (parse_models W body1)"
      from ok l(1) have "list_models W s3 = (Val ?have, st')" by simp
      with reached(1) run have m: "from_download W ?have st' = Some (r, s)"
        by (simp add: from_models_def)
      have g1_in: "?g1 \<in> set (trace st')" using l(2) by simp
      show ?thesis
      proof (cases ?have)
        case True
        with m have fd: "from_deploy W st' = Some (r, s)" by (simp add: from_download_def)
        from from_deploy_run [of W st'] fd obtain es where
          es: "trace s = trace st' @ es" "list_all (since W Deploy) es"
          by (auto simp: adds_def)
        have nod: "\<And>x y t c b. Http POST ?du x y t c b \<notin> set (trace s)"
        proof -
          fix x y t c b
          have "Http POST ?du x y t c b \<notin> set es" using es(2) d_lt by (rule not_in_since)
          with es(1) d_st' show "Http POST ?du x y t c b \<notin> set (trace s)" by simp
        qed
        from from_deploy_first [OF fd] obtain mid e post where
          f: "trace s = trace st' @ mid @ e # post" "list_all is_print mid"
             "if fix_mode W
              then \<exists>t c b. e = Http POST (model_url W @ ''/deployment/_start?pretty'') (auth W)
                                (Some start_payload) t c b
              else \<exists>t c b. e = Http GET (model_url W @ ''/_stats?pretty'') (auth W) None t c b"
          by blast
        have g_late: "?g \<notin> set es"
        proof -
          have "\<And>k. emits W k ?g \<Longrightarrow> stage_no k < stage_no Deploy"
          proof -
            fix k assume "emits W k ?g"
            from g_lt [OF this] show "stage_no k < stage_no Deploy" by simp
          qed
          with es(2) show ?thesis by (rule not_in_since)
        qed
        have 1: ?goal1
        proof
          assume h: "?g \<in> set (trace s) \<and> JStr (ELSER_MODEL_ID W) \<in> set (parse_models W body)"
          with es(1) g_late in_st' have eq: "?g = ?g1" by auto
          from f(1) l(2) have "trace s = (trace s3 @ ps) @ ?g1 # (qs @ mid) @ e # post" by simp
          with eq have "trace s = (trace s3 @ ps) @ ?g # (qs @ mid) @ e # post" by simp
          moreover have "list_all is_print (qs @ mid)" using l(4) f(2) by simp
          ultimately have "\<exists>pre mid e post.
             trace s = pre @ ?g # mid @ e # post \<and> list_all is_print mid \<and>
             (if fix_mode W
              then \<exists>t c b. e = Http POST (model_url W @ ''/deployment/_start?pretty'') (auth W)
                                (Some start_payload) t c b
              else \<exists>t c b. e = Http GET (model_url W @ ''/_stats?pretty'') (auth W) None t c b)"
            using f(3) by blast
          with nod show "(\<forall>x y t c b. Http POST ?du x y t c b \<notin> set (trace s)) \<and>
            (\<exists>pre mid e post.
               trace s = pre @ ?g # mid @ e # post \<and> list_all is_print mid \<and>
               (if fix_mode W
                then \<exists>t c b. e = Http POST (model_url W @ ''/deployment/_start?pretty'') (auth W)
                                  (Some start_payload) t c b
                else \<exists>t c b. e = Http GET (model_url W @ ''/_stats?pretty'') (auth W) None t c b))"
            by blast
        qed
        have 2: ?goal2 using nod by blast
        from 1 2 show ?thesis by (rule conjI)
      next
        case False
        from from_download_run [of W ?have st'] m obtain es where
          es: "trace s = trace st' @ es" "list_all (since W Download) es"
          by (auto simp: adds_def)
        have "?g \<notin> set es" using es(2) g_lt by (rule not_in_since)
        with es(1) in_st' have "?g \<in> set (trace s) \<longrightarrow> ?g = ?g1" by auto
        with False have 1: ?goal1 by auto
        from es(1) g1_in ok have "Http GET ?lu (auth W) None took1 200 body1 \<in> set (trace s)"
          by simp
        with False fixm have 2: ?goal2 by blast
        from 1 2 show ?thesis by (rule conjI)
      qed
    qed
  qed
qed


lemma fresh_urls:
  "ES_URL fresh_world = ''http://localhost:9200''"
  "model_url fresh_world = ''http://localhost:9200/_ml/trained_models/.elser_model_2''"
  "fix_mode fresh_world"
  by (simp_all add: model_url_def ES_URL_def ELSER_MODEL_ID_def env_def rstrip_slash_def
        fix_mode_def fix_world_def fresh_world_def)

lemma fresh_run:
  "map_option (\<lambda>(r, s). (r, calls (trace s), now s)) (main fresh_world) =
   Some (Exit 0,
     [Run docker_ps 0 0 ''up'' [],
      Http GET ''http://localhost:9200/'' (auth fresh_world) None 1 200 ''{}'',
      Http GET ''http://localhost:9200/_license?pretty'' (auth fresh_world) None 1 200 ''{}'',
      Http GET ''http://localhost:9200/_ml/trained_models?size=200&pretty'' (auth fresh_world) None
        1 200 ''{}'',
      Http POST ''http://localhost:9200/_ml/trained_models/.elser_model_2/_download?pretty''
        (auth fresh_world) None 1 200 ''{}'',
      Http GET ''http://localhost:9200/_ml/trained_models/.elser_model_2?pretty''
        (auth fresh_world) None 1 200 ''{}'',
      Http POST ''http://localhost:9200/_ml/trained_models/.elser_model_2/deployment/_start?pretty''
        (auth fresh_world) (Some start_payload) 1 200 ''{}'',
      Http GET ''http://localhost:9200/_ml/trained_models/.elser_model_2/_stats?pretty''
        (auth fresh_world) None 1 200 ''stats'',
      Http PUT ''http://localhost:9200/_ingest/pipeline/elser_oracle_pipeline?pretty''
        (auth fresh_world) (Some (pipeline_payload fresh_world)) 1 200 ''{}'',
      Http DELETE ''http://localhost:9200/oracle_elser_index?pretty'' (auth fresh_world) None
        1 200 ''{}'',
      Http PUT ''http://localhost:9200/oracle_elser_index?pretty'' (auth fresh_world)
        (Some index_payload) 1 200 ''{}'',
      Run (compose_restart fresh_world) 2 1 [] ''no such service'',
      Run (docker_restart fresh_world) 2 1 [] ''no such service'',
      Sleep 20,
      Http GET ''http://localhost:9200/oracle_elser_index/_count?pretty'' (auth fresh_world) None
        1 200 ''{}'',
      Run (docker_logs fresh_world) 0 0 ''up'' []],
     35)"
  by (simp add: eval_defs fix_world_def fresh_world_def)

lemma restart_cmds:
  "compose_restart W \<noteq> docker_restart W" "compose_restart W \<noteq> docker_logs W"
  "compose_restart W \<noteq> docker_ps" "docker_restart W \<noteq> docker_logs W"
  "docker_restart W \<noteq> docker_ps" "docker_restart W \<noteq> compose_restart W"
  "docker_logs W \<noteq> compose_restart W" "docker_logs W \<noteq> docker_restart W"
  by (simp_all add: compose_restart_def docker_restart_def docker_logs_def docker_ps_def)

lemma restart_only:
  "emits W k (Run (compose_restart W) took rc out err) \<Longrightarrow> k = Restart \<and> fix_mode W"
  "emits W k (Run (docker_restart W) took rc out err) \<Longrightarrow> k = Restart \<and> fix_mode W"
  using restart_cmds [of W] by auto

lemma prints_no_runs: "list_all is_print ps \<Longrightarrow> filter (is_run cmd) ps = []"
proof (induction ps)
  case Nil
  then show ?case by simp
next
  case (Cons e ps)
  then show ?case by (cases e) simp_all
qed

lemma no_runs_before:
  assumes "list_all (before W X) tr"
    and "\<And>k took rc out err. emits W k (Run cmd took rc out err) \<Longrightarrow> stage_no X \<le> stage_no k"
  shows "filter (is_run cmd) tr = []"
proof -
  have "\<not> is_run cmd e" if "e \<in> set tr" for e
  proof
    assume r: "is_run cmd e"
    then obtain took rc out err where e: "e = Run cmd took rc out err" by (cases e) simp_all
    have "Run cmd took rc out err \<notin> set tr" using assms(1) assms(2) by (rule not_in_before)
    with that e show False by simp
  qed
  then show ?thesis by (simp add: filter_empty_conv)
qed

lemma from_restart_fix_E:
  assumes "fix_mode W"
  obtains s took rc out err fallback took_c status_c body_c mid took_l rc_l out_l err_l post where
    "from_restart W st = Some (Exit 0, s)"
    "trace s = trace st @ heading_ev ''6) Restart Logstash (if --fix) and verify indexing'' @
       Run (compose_restart W) took rc out err # Print (take 1200 (str_strip W (out @ err))) #
       fallback @ Sleep 20 #
       Http GET (ES_URL W @ ''/'' @ INDEX W @ ''/_count?pretty'') (auth W) None
         took_c status_c body_c #
       mid @ Run (docker_logs W) took_l rc_l out_l err_l # post"
    "list_all is_print mid" "list_all is_print post"
    "rc = 0 \<longrightarrow> fallback = []"
    "rc \<noteq> 0 \<longrightarrow>
       (\<exists>took2 rc2 out2 err2.
         fallback = [Print ''[WARN] docker compose restart failed; trying docker restart'',
                     Run (docker_restart W) took2 rc2 out2 err2,
                     Print (take 1200 (str_strip W (out2 @ err2)))])"
proof -
  let ?h = "''6) Restart Logstash (if --fix) and verify indexing''"
  let ?u = "ES_URL W @ ''/'' @ INDEX W @ ''/_count?pretty''"
  obtain took rc out err fallback s1 where
    r: "restart_logstash W (heading ?h st) = (Val (), s1)"
       "trace s1 = trace (heading ?h st) @
          Run (compose_restart W) took rc out err # Print (take 1200 (str_strip W (out @ err))) #
          fallback @ [Sleep 20]"
       "rc = 0 \<longrightarrow> fallback = []"
       "rc \<noteq> 0 \<longrightarrow>
          (\<exists>took2 rc2 out2 err2.
            fallback = [Print ''[WARN] docker compose restart failed; trying docker restart'',
                        Run (docker_restart W) took2 rc2 out2 err2,
                        Print (take 1200 (str_strip W (out2 @ err2)))])"
    by (rule restart_logstash_E [of W "heading ?h st"])
  obtain took_c status_c body_c s2 where
    c: "http W GET ?u (auth W) None s1 = ((status_c, body_c), s2)"
       "trace s2 = trace s1 @ [Http GET ?u (auth W) None took_c status_c body_c]"
    by (rule http_E [of W GET ?u "auth W" None s1])
  let ?s3 = "print (jdump W body_c 800) s2"
  obtain took_l rc_l out_l err_l ps qs where
    l: "trace (logstash_evidence W ?s3) =
          trace ?s3 @ ps @ Run (docker_logs W) took_l rc_l out_l err_l # qs"
       "list_all is_print ps" "list_all is_print qs"
    by (rule logstash_evidence_E [of W ?s3])
  let ?s = "ok ''If count is still 0, paste sections 6 and 7 output only.''
              (heading ''DONE'' (logstash_evidence W ?s3))"
  have rc: "restart_and_count W st = (Val (), ?s3)"
    using assms r(1) c(1) by (simp add: restart_and_count_def Let_def)
  have 1: "from_restart W st = Some (Exit 0, ?s)"
    using rc by (simp add: from_restart_def thn_def from_logs_def)
  have 2: "trace ?s = trace st @ heading_ev ?h @
       Run (compose_restart W) took rc out err # Print (take 1200 (str_strip W (out @ err))) #
       fallback @ Sleep 20 # Http GET ?u (auth W) None took_c status_c body_c #
       (Print (jdump W body_c 800) # ps) @ Run (docker_logs W) took_l rc_l out_l err_l #
       (qs @ heading_ev ''DONE'' @
          [Print ''[OK] If count is still 0, paste sections 6 and 7 output only.''])"
    using r(2) c(2) l(1) by simp
  have 3: "list_all is_print (Print (jdump W body_c 800) # ps)" using l(2) by simp
  have 4: "list_all is_print (qs @ heading_ev ''DONE'' @
          [Print ''[OK] If count is still 0, paste sections 6 and 7 output only.''])"
    using l(3) by simp
  from 1 2 3 4 r(3) r(4) show thesis by (rule that)
qed


text \<open>
  Claim C7. Wherever the primary restart command (\<open>docker compose restart\<close>) is in the
  trace, the run is in fix mode, it is the only execution of that command, and the run
  returns 0, whatever the command and its fallback came back with. After the command and
  its printed output comes, when its status is not 0, the warning and one execution of the
  fallback (\<open>docker restart\<close>) with its printed output, and nothing when the status is 0;
  then the pause of 20 seconds, the count query, and after some output the log tail. The
  fallback is executed exactly once in the whole run when the primary command failed and
  never otherwise. A run in fix mode that returns 0 has executed the primary command.
\<close>

theorem failed_restart_falls_back_once:
  assumes run: "main W = Some (r, s)"
  shows
    "(Run (compose_restart W) took rc out err \<in> set (trace s) \<longrightarrow>
        fix_mode W \<and> r = Exit 0 \<and>
        length (filter (is_run (compose_restart W)) (trace s)) = 1 \<and>
        length (filter (is_run (docker_restart W)) (trace s)) = (if rc = 0 then 0 else 1) \<and>
        (\<exists>pre fallback took_c status_c body_c mid took_l rc_l out_l err_l post.
           trace s = pre @ Run (compose_restart W) took rc out err #
                     Print (take 1200 (str_strip W (out @ err))) #
                     fallback @ Sleep 20 #
                     Http GET (ES_URL W @ ''/'' @ INDEX W @ ''/_count?pretty'') (auth W) None
                       took_c status_c body_c #
                     mid @ Run (docker_logs W) took_l rc_l out_l err_l # post \<and>
           list_all is_print mid \<and> list_all is_print post \<and>
           (if rc = 0 then fallback = []
            else \<exists>took2 rc2 out2 err2.
                   fallback = [Print ''[WARN] docker compose restart failed; trying docker restart'',
                               Run (docker_restart W) took2 rc2 out2 err2,
                               Print (take 1200 (str_strip W (out2 @ err2)))]))) \<and>
     (fix_mode W \<and> r = Exit 0 \<longrightarrow>
        (\<exists>took1 rc1 out1 err1. Run (compose_restart W) took1 rc1 out1 err1 \<in> set (trace s)))"
proof -
  let ?u = "ES_URL W @ ''/'' @ INDEX W @ ''/_count?pretty''"
  let ?c = "Run (compose_restart W) took rc out err"
  have c_only: "\<And>k t c out err. emits W k (Run (compose_restart W) t c out err) \<Longrightarrow>
                  stage_no Restart \<le> stage_no k"
    and f_only: "\<And>k t c out err. emits W k (Run (docker_restart W) t c out err) \<Longrightarrow>
                  stage_no Restart \<le> stage_no k"
  proof -
    fix k t c out err
    { assume "emits W k (Run (compose_restart W) t c out err)"
      then have "k = Restart" using restart_only(1) by blast
      then show "stage_no Restart \<le> stage_no k" by simp }
    { assume "emits W k (Run (docker_restart W) t c out err)"
      then have "k = Restart" using restart_only(2) by blast
      then show "stage_no Restart \<le> stage_no k" by simp }
  qed
  have fixm: "?c \<in> set (trace s) \<longrightarrow> fix_mode W"
    using trace_emitted [OF run] restart_only(1) by blast
  show ?thesis
  proof (cases "fix_mode W")
    case False
    with fixm show ?thesis by blast
  next
    case True
    from gets_restart [of W] consider
      (stopped) n s' where "main W = Some (Exit n, s')" "codes_before W Restart n"
        "list_all (before W Restart) (trace s')"
      | (reached) s8 where "main W = from_restart W s8" "list_all (before W Restart) (trace s8)"
      unfolding gets_to_def by blast
    then show ?thesis
    proof cases
      case stopped
      with run have s: "s' = s" "r = Exit n" by simp_all
      have "?c \<notin> set (trace s')" using stopped(3) c_only by (rule not_in_before)
      moreover have "n \<noteq> 0"
      proof
        assume "n = 0"
        have "\<And>k. n \<in> stage_codes W k \<Longrightarrow> stage_no Restart \<le> stage_no k"
        proof -
          fix k assume "n \<in> stage_codes W k"
          with \<open>n = 0\<close> have "k = Logs" using stage_of_code by blast
          then show "stage_no Restart \<le> stage_no k" by simp
        qed
        with stopped(2) show False by (rule code_not_before)
      qed
      ultimately show ?thesis using s by simp
    next
      case reached
      let ?h = "heading_ev ''6) Restart Logstash (if --fix) and verify indexing''"
      obtain s0 took1 rc1 out1 err1 fallback took_c status_c body_c mid took_l rc_l out_l err_l post
        where
        f: "from_restart W s8 = Some (Exit 0, s0)"
           "trace s0 = trace s8 @ ?h @
              Run (compose_restart W) took1 rc1 out1 err1 #
              Print (take 1200 (str_strip W (out1 @ err1))) #
              fallback @ Sleep 20 # Http GET ?u (auth W) None took_c status_c body_c #
              mid @ Run (docker_logs W) took_l rc_l out_l err_l # post"
           "list_all is_print mid" "list_all is_print post"
           "rc1 = 0 \<longrightarrow> fallback = []"
           "rc1 \<noteq> 0 \<longrightarrow>
              (\<exists>took2 rc2 out2 err2.
                fallback = [Print ''[WARN] docker compose restart failed; trying docker restart'',
                            Run (docker_restart W) took2 rc2 out2 err2,
                            Print (take 1200 (str_strip W (out2 @ err2)))])"
        by (rule from_restart_fix_E [OF True, of s8])
      from reached(1) f(1) run have rs: "r = Exit 0" "s = s0" by simp_all
      let ?c1 = "Run (compose_restart W) took1 rc1 out1 err1"
      have tr: "trace s = (trace s8 @ ?h) @ ?c1 # Print (take 1200 (str_strip W (out1 @ err1))) #
              fallback @ Sleep 20 # Http GET ?u (auth W) None took_c status_c body_c #
              mid @ Run (docker_logs W) took_l rc_l out_l err_l # post"
        using f(2) rs(2) by simp
      have fb: "if rc1 = 0 then fallback = []
            else \<exists>took2 rc2 out2 err2.
                   fallback = [Print ''[WARN] docker compose restart failed; trying docker restart'',
                               Run (docker_restart W) took2 rc2 out2 err2,
                               Print (take 1200 (str_strip W (out2 @ err2)))]"
        using f(5) f(6) by simp
      have fb_c: "filter (is_run (compose_restart W)) fallback = []"
        using fb restart_cmds(6) [of W] by (auto split: if_splits)
      have fb_f: "length (filter (is_run (docker_restart W)) fallback) = (if rc1 = 0 then 0 else 1)"
        using fb by (auto split: if_splits)
      have e8c: "filter (is_run (compose_restart W)) (trace s8) = []"
        using reached(2) c_only by (rule no_runs_before)
      have e8f: "filter (is_run (docker_restart W)) (trace s8) = []"
        using reached(2) f_only by (rule no_runs_before)
      note quiet = prints_no_runs [OF f(3)] prints_no_runs [OF f(4)]
        prints_no_runs [OF prints_heading]
      have only_c: "filter (is_run (compose_restart W)) (trace s) = [?c1]"
        using tr e8c quiet fb_c restart_cmds(7) [of W] by simp
      then have n1: "length (filter (is_run (compose_restart W)) (trace s)) = 1" by simp
      have n2: "length (filter (is_run (docker_restart W)) (trace s)) = (if rc1 = 0 then 0 else 1)"
        using tr e8f quiet fb_f restart_cmds(1,8) [of W] by simp
      have in1: "?c1 \<in> set (trace s)" using tr by simp
      have "?c \<in> set (trace s) \<longrightarrow> ?c \<in> set (filter (is_run (compose_restart W)) (trace s))"
        by simp
      with only_c have same: "?c \<in> set (trace s) \<longrightarrow> ?c = ?c1" by auto
      have c1: "?c \<in> set (trace s) \<longrightarrow>
        fix_mode W \<and> r = Exit 0 \<and>
        length (filter (is_run (compose_restart W)) (trace s)) = 1 \<and>
        length (filter (is_run (docker_restart W)) (trace s)) = (if rc = 0 then 0 else 1) \<and>
        (\<exists>pre fallback took_c status_c body_c mid took_l rc_l out_l err_l post.
           trace s = pre @ Run (compose_restart W) took rc out err #
                     Print (take 1200 (str_strip W (out @ err))) #
                     fallback @ Sleep 20 # Http GET ?u (auth W) None took_c status_c body_c #
                     mid @ Run (docker_logs W) took_l rc_l out_l err_l # post \<and>
           list_all is_print mid \<and> list_all is_print post \<and>
           (if rc = 0 then fallback = []
            else \<exists>took2 rc2 out2 err2.
                   fallback = [Print ''[WARN] docker compose restart failed; trying docker restart'',
                               Run (docker_restart W) took2 rc2 out2 err2,
                               Print (take 1200 (str_strip W (out2 @ err2)))]))"
      proof
        assume "?c \<in> set (trace s)"
        with same have eq: "took = took1" "rc = rc1" "out = out1" "err = err1" by simp_all
        have "trace s = (trace s8 @ ?h) @ Run (compose_restart W) took rc out err #
                     Print (take 1200 (str_strip W (out @ err))) #
                     fallback @ Sleep 20 # Http GET ?u (auth W) None took_c status_c body_c #
                     mid @ Run (docker_logs W) took_l rc_l out_l err_l # post \<and>
           list_all is_print mid \<and> list_all is_print post \<and>
           (if rc = 0 then fallback = []
            else \<exists>took2 rc2 out2 err2.
                   fallback = [Print ''[WARN] docker compose restart failed; trying docker restart'',
                               Run (docker_restart W) took2 rc2 out2 err2,
                               Print (take 1200 (str_strip W (out2 @ err2)))])"
          using tr eq f(3) f(4) fb by simp
        then have "\<exists>pre fallback took_c status_c body_c mid took_l rc_l out_l err_l post.
           trace s = pre @ Run (compose_restart W) took rc out err #
                     Print (take 1200 (str_strip W (out @ err))) #
                     fallback @ Sleep 20 # Http GET ?u (auth W) None took_c status_c body_c #
                     mid @ Run (docker_logs W) took_l rc_l out_l err_l # post \<and>
           list_all is_print mid \<and> list_all is_print post \<and>
           (if rc = 0 then fallback = []
            else \<exists>took2 rc2 out2 err2.
                   fallback = [Print ''[WARN] docker compose restart failed; trying docker restart'',
                               Run (docker_restart W) took2 rc2 out2 err2,
                               Print (take 1200 (str_strip W (out2 @ err2)))])"
          by blast
        with True rs(1) n1 n2 eq(2) show "fix_mode W \<and> r = Exit 0 \<and>
          length (filter (is_run (compose_restart W)) (trace s)) = 1 \<and>
          length (filter (is_run (docker_restart W)) (trace s)) = (if rc = 0 then 0 else 1) \<and>
          (\<exists>pre fallback took_c status_c body_c mid took_l rc_l out_l err_l post.
             trace s = pre @ Run (compose_restart W) took rc out err #
                       Print (take 1200 (str_strip W (out @ err))) #
                       fallback @ Sleep 20 # Http GET ?u (auth W) None took_c status_c body_c #
                       mid @ Run (docker_logs W) took_l rc_l out_l err_l # post \<and>
             list_all is_print mid \<and> list_all is_print post \<and>
             (if rc = 0 then fallback = []
              else \<exists>took2 rc2 out2 err2.
                     fallback = [Print ''[WARN] docker compose restart failed; trying docker restart'',
                                 Run (docker_restart W) took2 rc2 out2 err2,
                                 Print (take 1200 (str_strip W (out2 @ err2)))]))"
          by simp
      qed
      have c2: "fix_mode W \<and> r = Exit 0 \<longrightarrow>
        (\<exists>took1 rc1 out1 err1. Run (compose_restart W) took1 rc1 out1 err1 \<in> set (trace s))"
        using in1 by blast
      from c1 c2 show ?thesis by (rule conjI)
    qed
  qed
qed


theorem failed_restart_falls_back_once_witness:
  "\<exists>s. main fix_world = Some (Exit 0, s) \<and> fix_mode fix_world \<and>
     Run (compose_restart fix_world) 2 1 [] ''no such service'' \<in> set (trace s) \<and>
     Run (docker_restart fix_world) 2 1 [] ''no such service'' \<in> set (trace s) \<and>
     length (filter (is_run (compose_restart fix_world)) (trace s)) = 1 \<and>
     length (filter (is_run (docker_restart fix_world)) (trace s)) = 1 \<and>
     (\<exists>pre took2 rc2 out2 err2 took_c status_c body_c mid took_l rc_l out_l err_l post.
        trace s = pre @ Run (compose_restart fix_world) 2 1 [] ''no such service'' #
                  Print (take 1200 (str_strip fix_world ([] @ ''no such service''))) #
                  [Print ''[WARN] docker compose restart failed; trying docker restart'',
                   Run (docker_restart fix_world) took2 rc2 out2 err2,
                   Print (take 1200 (str_strip fix_world (out2 @ err2)))] @
                  Sleep 20 #
                  Http GET (ES_URL fix_world @ ''/'' @ INDEX fix_world @ ''/_count?pretty'')
                    (auth fix_world) None took_c status_c body_c #
                  mid @ Run (docker_logs fix_world) took_l rc_l out_l err_l # post \<and>
        list_all is_print mid \<and> list_all is_print post)"
proof -
  obtain s where s: "main fix_world = Some (Exit 0, s)"
    and c: "Run (compose_restart fix_world) 2 1 [] ''no such service'' \<in> set (calls (trace s))"
       "Run (docker_restart fix_world) 2 1 [] ''no such service'' \<in> set (calls (trace s))"
    by (rule fix_run_E) simp
  from c have e: "Run (compose_restart fix_world) 2 1 [] ''no such service'' \<in> set (trace s)"
    "Run (docker_restart fix_world) 2 1 [] ''no such service'' \<in> set (trace s)"
    by (simp_all add: calls_subset)
  from failed_restart_falls_back_once [OF s, of 2 1 "[]" "''no such service''"] e(1)
  have "length (filter (is_run (compose_restart fix_world)) (trace s)) = 1 \<and>
     length (filter (is_run (docker_restart fix_world)) (trace s)) = 1 \<and>
     (\<exists>pre fallback took_c status_c body_c mid took_l rc_l out_l err_l post.
        trace s = pre @ Run (compose_restart fix_world) 2 1 [] ''no such service'' #
                  Print (take 1200 (str_strip fix_world ([] @ ''no such service''))) #
                  fallback @ Sleep 20 #
                  Http GET (ES_URL fix_world @ ''/'' @ INDEX fix_world @ ''/_count?pretty'')
                    (auth fix_world) None took_c status_c body_c #
                  mid @ Run (docker_logs fix_world) took_l rc_l out_l err_l # post \<and>
        list_all is_print mid \<and> list_all is_print post \<and>
        (\<exists>took2 rc2 out2 err2.
           fallback = [Print ''[WARN] docker compose restart failed; trying docker restart'',
                       Run (docker_restart fix_world) took2 rc2 out2 err2,
                       Print (take 1200 (str_strip fix_world (out2 @ err2)))]))"
    by simp
  then have "length (filter (is_run (compose_restart fix_world)) (trace s)) = 1 \<and>
     length (filter (is_run (docker_restart fix_world)) (trace s)) = 1 \<and>
     (\<exists>pre took2 rc2 out2 err2 took_c status_c body_c mid took_l rc_l out_l err_l post.
        trace s = pre @ Run (compose_restart fix_world) 2 1 [] ''no such service'' #
                  Print (take 1200 (str_strip fix_world ([] @ ''no such service''))) #
                  [Print ''[WARN] docker compose restart failed; trying docker restart'',
                   Run (docker_restart fix_world) took2 rc2 out2 err2,
                   Print (take 1200 (str_strip fix_world (out2 @ err2)))] @
                  Sleep 20 #
                  Http GET (ES_URL fix_world @ ''/'' @ INDEX fix_world @ ''/_count?pretty'')
                    (auth fix_world) None took_c status_c body_c #
                  mid @ Run (docker_logs fix_world) took_l rc_l out_l err_l # post \<and>
        list_all is_print mid \<and> list_all is_print post)"
    by blast
  with s e fix_urls(4) show ?thesis by blast
qed

lemma quiet_run:
  "map_option (\<lambda>(r, s). (r, trace s)) (main quiet_world) =
   Some (Exit 0,
     heading_ev ''0) Mode'' @
     [Print ''Fix mode: OFF (read-only)''] @
     heading_ev ''1) Docker: containers & basic status'' @
     [Run docker_ps 0 0 ''up'' [],
      Print ''up''] @
     heading_ev ''2) Elasticsearch: reachability + license'' @
     [Http GET ''http://localhost:9200/'' (auth quiet_world) None 0 200 ''{}'',
      Print ''[OK] Elasticsearch reachable at http://localhost:9200 (auth OK)'',
      Print ''{}'',
      Http GET ''http://localhost:9200/_license?pretty'' (auth quiet_world) None 0 200 ''{}'',
      Print ''{}''] @
     heading_ev ''3) ML: list models, ensure ELSER exists, download + deploy (if --fix)'' @
     [Http GET ''http://localhost:9200/_ml/trained_models?size=200&pretty'' (auth quiet_world) None
        0 200 ''{}'',
      Print ''Known trained models (first 40):'',
      Print ''[WARN] ELSE R model NOT found: .elser_model_2'',
      Print ''[OK] Skipping deployment changes (read-only mode).'',
      Http GET ''http://localhost:9200/_ml/trained_models/.elser_model_2/_stats?pretty''
        (auth quiet_world) None 0 503 ''deployment busy''] @
     heading_ev ''4) Ingest pipeline: ensure it points to the correct model id (if --fix)'' @
     [Http GET ''http://localhost:9200/_ingest/pipeline/elser_oracle_pipeline?pretty''
        (auth quiet_world) None 0 200 ''{}'',
      Print ''[OK] Ingest pipeline exists: elser_oracle_pipeline''] @
     heading_ev ''5) Index mapping: ensure ml.tokens is rank_features (if --fix)'' @
     [Print ''[OK] Skipping index recreation (read-only mode).''] @
     heading_ev ''6) Restart Logstash (if --fix) and verify indexing'' @
     [Http GET ''http://localhost:9200/oracle_elser_index/_count?pretty'' (auth quiet_world) None
        0 200 ''{}'',
      Print ''{}''] @
     heading_ev ''7) Recent Logstash evidence (tail)'' @
     [Run (docker_logs quiet_world) 0 0 ''up'' [],
      Print ''up''] @
     heading_ev ''DONE'' @
     [Print ''[OK] If count is still 0, paste sections 6 and 7 output only.''])"
  by (simp add: eval_defs quiet_world_def heading_ev_def)


lemma calm_run:
  "map_option (\<lambda>(r, s). (r, calls (trace s), printed (trace s))) (main calm_world) =
   map_option (\<lambda>(r, s). (r,
       [Run docker_ps 0 0 ''up'' [],
        Http GET ''http://localhost:9200/'' (auth calm_world) None 0 200 ''{}'',
        Http GET ''http://localhost:9200/_license?pretty'' (auth calm_world) None 0 200 ''{}'',
        Http GET ''http://localhost:9200/_ml/trained_models?size=200&pretty'' (auth calm_world) None
          0 200 ''{}'',
        Http GET ''http://localhost:9200/_ml/trained_models/.elser_model_2/_stats?pretty''
          (auth calm_world) None 0 200 ''stats'',
        Http GET ''http://localhost:9200/_ingest/pipeline/elser_oracle_pipeline?pretty''
          (auth calm_world) None 0 200 ''{}'',
        Http GET ''http://localhost:9200/oracle_elser_index/_count?pretty'' (auth calm_world) None
          0 200 ''{}'',
        Run (docker_logs calm_world) 0 0 ''up'' []],
       printed (trace s))) (main quiet_world)"
  by (simp add: eval_defs quiet_world_def calm_world_def heading_ev_def)

lemma quiet_urls:
  "ES_URL quiet_world = ''http://localhost:9200''"
  "model_url quiet_world = ''http://localhost:9200/_ml/trained_models/.elser_model_2''"
  "\<not> fix_mode quiet_world" "\<not> fix_mode calm_world"
  by (simp_all add: model_url_def ES_URL_def ELSER_MODEL_ID_def env_def rstrip_slash_def
        fix_mode_def quiet_world_def calm_world_def)

text \<open>
  The claim as the specification words it has the status displayed. In \<open>quiet_world\<close>,
  a run without \<open>--fix\<close>, the statistics query is answered with \<open>503 deployment busy\<close>;
  the run prints the lines below and none of them mentions the status or the body of that
  answer. In \<open>calm_world\<close> the same query is answered with 200 and the state
  \<open>started\<close>, and the run prints the very same lines.
\<close>

theorem read_only_status_is_not_displayed_counterexample:
  "\<not> fix_mode quiet_world \<and> \<not> fix_mode calm_world \<and>
   requests quiet_world =
     [Run docker_ps 0 0 ''up'' [],
      Http GET ''http://localhost:9200/'' (auth quiet_world) None 0 200 ''{}'',
      Http GET ''http://localhost:9200/_license?pretty'' (auth quiet_world) None 0 200 ''{}'',
      Http GET ''http://localhost:9200/_ml/trained_models?size=200&pretty'' (auth quiet_world) None
        0 200 ''{}'',
      Http GET ''http://localhost:9200/_ml/trained_models/.elser_model_2/_stats?pretty''
        (auth quiet_world) None 0 503 ''deployment busy'',
      Http GET ''http://localhost:9200/_ingest/pipeline/elser_oracle_pipeline?pretty''
        (auth quiet_world) None 0 200 ''{}'',
      Http GET ''http://localhost:9200/oracle_elser_index/_count?pretty'' (auth quiet_world) None
        0 200 ''{}'',
      Run (docker_logs quiet_world) 0 0 ''up'' []] \<and>
   transcript quiet_world =
     [CHR 0x0A # replicate 90 CHR ''='', ''0) Mode'', replicate 90 CHR ''='',
      ''Fix mode: OFF (read-only)'',
      CHR 0x0A # replicate 90 CHR ''='', ''1) Docker: containers & basic status'',
      replicate 90 CHR ''='',
      ''up'',
      CHR 0x0A # replicate 90 CHR ''='', ''2) Elasticsearch: reachability + license'',
      replicate 90 CHR ''='',
      ''[OK] Elasticsearch reachable at http://localhost:9200 (auth OK)'',
      ''{}'',
      ''{}'',
      CHR 0x0A # replicate 90 CHR ''='',
      ''3) ML: list models, ensure ELSER exists, download + deploy (if --fix)'',
      replicate 90 CHR ''='',
      ''Known trained models (first 40):'',
      ''[WARN] ELSE R model NOT found: .elser_model_2'',
      ''[OK] Skipping deployment changes (read-only mode).'',
      CHR 0x0A # replicate 90 CHR ''='',
      ''4) Ingest pipeline: ensure it points to the correct model id (if --fix)'',
      replicate 90 CHR ''='',
      ''[OK] Ingest pipeline exists: elser_oracle_pipeline'',
      CHR 0x0A # replicate 90 CHR ''='',
      ''5) Index mapping: ensure ml.tokens is rank_features (if --fix)'',
      replicate 90 CHR ''='',
      ''[OK] Skipping index recreation (read-only mode).'',
      CHR 0x0A # replicate 90 CHR ''='',
      ''6) Restart Logstash (if --fix) and verify indexing'',
      replicate 90 CHR ''='',
      ''{}'',
      CHR 0x0A # replicate 90 CHR ''='', ''7) Recent Logstash evidence (tail)'',
      replicate 90 CHR ''='',
      ''up'',
      CHR 0x0A # replicate 90 CHR ''='', ''DONE'', replicate 90 CHR ''='',
      ''[OK] If count is still 0, paste sections 6 and 7 output only.''] \<and>
   \<not> mentions ''deployment busy'' (transcript quiet_world) \<and>
   \<not> mentions ''503'' (transcript quiet_world) \<and>
   requests calm_world =
     [Run docker_ps 0 0 ''up'' [],
      Http GET ''http://localhost:9200/'' (auth calm_world) None 0 200 ''{}'',
      Http GET ''http://localhost:9200/_license?pretty'' (auth calm_world) None 0 200 ''{}'',
      Http GET ''http://localhost:9200/_ml/trained_models?size=200&pretty'' (auth calm_world) None
        0 200 ''{}'',
      Http GET ''http://localhost:9200/_ml/trained_models/.elser_model_2/_stats?pretty''
        (auth calm_world) None 0 200 ''stats'',
      Http GET ''http://localhost:9200/_ingest/pipeline/elser_oracle_pipeline?pretty''
        (auth calm_world) None 0 200 ''{}'',
      Http GET ''http://localhost:9200/oracle_elser_index/_count?pretty'' (auth calm_world) None
        0 200 ''{}'',
      Run (docker_logs calm_world) 0 0 ''up'' []] \<and>
   transcript calm_world = transcript quiet_world"
proof -
  from quiet_run obtain s where
    s: "main quiet_world = Some (Exit 0, s)" and
    t: "trace s =
     heading_ev ''0) Mode'' @
     [Print ''Fix mode: OFF (read-only)''] @
     heading_ev ''1) Docker: containers & basic status'' @
     [Run docker_ps 0 0 ''up'' [],
      Print ''up''] @
     heading_ev ''2) Elasticsearch: reachability + license'' @
     [Http GET ''http://localhost:9200/'' (auth quiet_world) None 0 200 ''{}'',
      Print ''[OK] Elasticsearch reachable at http://localhost:9200 (auth OK)'',
      Print ''{}'',
      Http GET ''http://localhost:9200/_license?pretty'' (auth quiet_world) None 0 200 ''{}'',
      Print ''{}''] @
     heading_ev ''3) ML: list models, ensure ELSER exists, download + deploy (if --fix)'' @
     [Http GET ''http://localhost:9200/_ml/trained_models?size=200&pretty'' (auth quiet_world) None
        0 200 ''{}'',
      Print ''Known trained models (first 40):'',
      Print ''[WARN] ELSE R model NOT found: .elser_model_2'',
      Print ''[OK] Skipping deployment changes (read-only mode).'',
      Http GET ''http://localhost:9200/_ml/trained_models/.elser_model_2/_stats?pretty''
        (auth quiet_world) None 0 503 ''deployment busy''] @
     heading_ev ''4) Ingest pipeline: ensure it points to the correct model id (if --fix)'' @
     [Http GET ''http://localhost:9200/_ingest/pipeline/elser_oracle_pipeline?pretty''
        (auth quiet_world) None 0 200 ''{}'',
      Print ''[OK] Ingest pipeline exists: elser_oracle_pipeline''] @
     heading_ev ''5) Index mapping: ensure ml.tokens is rank_features (if --fix)'' @
     [Print ''[OK] Skipping index recreation (read-only mode).''] @
     heading_ev ''6) Restart Logstash (if --fix) and verify indexing'' @
     [Http GET ''http://localhost:9200/oracle_elser_index/_count?pretty'' (auth quiet_world) None
        0 200 ''{}'',
      Print ''{}''] @
     heading_ev ''7) Recent Logstash evidence (tail)'' @
     [Run (docker_logs quiet_world) 0 0 ''up'' [],
      Print ''up''] @
     heading_ev ''DONE'' @
     [Print ''[OK] If count is still 0, paste sections 6 and 7 output only.'']"
    by (cases "main quiet_world") auto
  have q: "requests quiet_world =
     [Run docker_ps 0 0 ''up'' [],
      Http GET ''http://localhost:9200/'' (auth quiet_world) None 0 200 ''{}'',
      Http GET ''http://localhost:9200/_license?pretty'' (auth quiet_world) None 0 200 ''{}'',
      Http GET ''http://localhost:9200/_ml/trained_models?size=200&pretty'' (auth quiet_world) None
        0 200 ''{}'',
      Http GET ''http://localhost:9200/_ml/trained_models/.elser_model_2/_stats?pretty''
        (auth quiet_world) None 0 503 ''deployment busy'',
      Http GET ''http://localhost:9200/_ingest/pipeline/elser_oracle_pipeline?pretty''
        (auth quiet_world) None 0 200 ''{}'',
      Http GET ''http://localhost:9200/oracle_elser_index/_count?pretty'' (auth quiet_world) None
        0 200 ''{}'',
      Run (docker_logs quiet_world) 0 0 ''up'' []]"
    by (simp add: requests_def s t calls_def heading_ev_def)
  have p: "transcript quiet_world =
     [CHR 0x0A # replicate 90 CHR ''='', ''0) Mode'', replicate 90 CHR ''='',
      ''Fix mode: OFF (read-only)'',
      CHR 0x0A # replicate 90 CHR ''='', ''1) Docker: containers & basic status'',
      replicate 90 CHR ''='',
      ''up'',
      CHR 0x0A # replicate 90 CHR ''='', ''2) Elasticsearch: reachability + license'',
      replicate 90 CHR ''='',
      ''[OK] Elasticsearch reachable at http://localhost:9200 (auth OK)'',
      ''{}'',
      ''{}'',
      CHR 0x0A # replicate 90 CHR ''='',
      ''3) ML: list models, ensure ELSER exists, download + deploy (if --fix)'',
      replicate 90 CHR ''='',
      ''Known trained models (first 40):'',
      ''[WARN] ELSE R model NOT found: .elser_model_2'',
      ''[OK] Skipping deployment changes (read-only mode).'',
      CHR 0x0A # replicate 90 CHR ''='',
      ''4) Ingest pipeline: ensure it points to the correct model id (if --fix)'',
      replicate 90 CHR ''='',
      ''[OK] Ingest pipeline exists: elser_oracle_pipeline'',
      CHR 0x0A # replicate 90 CHR ''='',
      ''5) Index mapping: ensure ml.tokens is rank_features (if --fix)'',
      replicate 90 CHR ''='',
      ''[OK] Skipping index recreation (read-only mode).'',
      CHR 0x0A # replicate 90 CHR ''='',
      ''6) Restart Logstash (if --fix) and verify indexing'',
      replicate 90 CHR ''='',
      ''{}'',
      CHR 0x0A # replicate 90 CHR ''='', ''7) Recent Logstash evidence (tail)'',
      replicate 90 CHR ''='',
      ''up'',
      CHR 0x0A # replicate 90 CHR ''='', ''DONE'', replicate 90 CHR ''='',
      ''[OK] If count is still 0, paste sections 6 and 7 output only.'']"
    by (simp add: transcript_def s t heading_ev_def)
  have n: "\<not> mentions ''deployment busy'' (transcript quiet_world)"
    "\<not> mentions ''503'' (transcript quiet_world)"
    unfolding p mentions_def by (simp_all add: eval_nat_numeral)
  from calm_run s have c: "requests calm_world =
     [Run docker_ps 0 0 ''up'' [],
      Http GET ''http://localhost:9200/'' (auth calm_world) None 0 200 ''{}'',
      Http GET ''http://localhost:9200/_license?pretty'' (auth calm_world) None 0 200 ''{}'',
      Http GET ''http://localhost:9200/_ml/trained_models?size=200&pretty'' (auth calm_world) None
        0 200 ''{}'',
      Http GET ''http://localhost:9200/_ml/trained_models/.elser_model_2/_stats?pretty''
        (auth calm_world) None 0 200 ''stats'',
      Http GET ''http://localhost:9200/_ingest/pipeline/elser_oracle_pipeline?pretty''
        (auth calm_world) None 0 200 ''{}'',
      Http GET ''http://localhost:9200/oracle_elser_index/_count?pretty'' (auth calm_world) None
        0 200 ''{}'',
      Run (docker_logs calm_world) 0 0 ''up'' []]"
    "transcript calm_world = transcript quiet_world"
    by (cases "main calm_world"; auto simp: requests_def transcript_def)+
  from quiet_urls(3,4) q p n c show ?thesis by (intro conjI)
qed


lemma stats_only_deploy:
  "emits W k (Http GET (model_url W @ ''/_stats?pretty'') a p took status body) \<Longrightarrow>
     k = Deploy \<and> a = auth W \<and> p = None"
  by (cases k) (auto simp: model_url_def)

lemma no_post_read_only:
  assumes "\<not> fix_mode W" and "emits W k (Http POST u a p took status body)"
  shows False
  using assms by (cases k) auto

lemma ingest_pipeline_heading:
  "\<exists>es. trace (snd (ingest_pipeline W st)) =
     trace st @
     heading_ev ''4) Ingest pipeline: ensure it points to the correct model id (if --fix)'' @ es"
proof -
  let ?h = "''4) Ingest pipeline: ensure it points to the correct model id (if --fix)''"
  let ?u = "ES_URL W @ ''/_ingest/pipeline/'' @ PIPELINE_ID W @ ''?pretty''"
  obtain took1 status1 body1 s1 where
    p: "http W PUT ?u (auth W) (Some (pipeline_payload W)) (heading ?h st) = ((status1, body1), s1)"
       "trace s1 = trace (heading ?h st) @
          [Http PUT ?u (auth W) (Some (pipeline_payload W)) took1 status1 body1]"
    by (rule http_E)
  obtain took2 status2 body2 s2 where
    g: "http W GET ?u (auth W) None (heading ?h st) = ((status2, body2), s2)"
       "trace s2 = trace (heading ?h st) @ [Http GET ?u (auth W) None took2 status2 body2]"
    by (rule http_E)
  from p g show ?thesis by (simp add: ingest_pipeline_def Let_def)
qed

lemma from_deploy_ro_E:
  assumes "\<not> fix_mode W"
  obtains s took status body post where
    "from_deploy W st = Some (Exit 0, s)"
    "trace s = trace st @
       Print ''[OK] Skipping deployment changes (read-only mode).'' #
       Http GET (model_url W @ ''/_stats?pretty'') (auth W) None took status body #
       heading_ev ''4) Ingest pipeline: ensure it points to the correct model id (if --fix)'' @ post"
    "list_all (since W Pipeline) post"
proof -
  let ?h = "heading_ev ''4) Ingest pipeline: ensure it points to the correct model id (if --fix)''"
  obtain took status body st' where
    d: "ensure_deployment W st = Some (Val (), st')"
       "trace st' = trace st @
          [Print ''[OK] Skipping deployment changes (read-only mode).'',
           Http GET (model_url W @ ''/_stats?pretty'') (auth W) None took status body]"
    by (rule ensure_deployment_ro_E [OF assms, of st])
  from d(1) have fd: "from_deploy W st = from_pipeline W st'"
    by (simp add: from_deploy_def thn_def)
  from from_pipeline_run [of W st'] obtain n s es where
    p: "from_pipeline W st' = Some (Exit n, s)" "trace s = trace st' @ es"
       "list_all (since W Pipeline) es" "codes_since W Pipeline n"
    by (auto simp: adds_def)
  from p(4) obtain k where "stage_no Pipeline \<le> stage_no k" "n \<in> stage_codes W k"
    by (auto simp: codes_since_def)
  with assms have n: "n = 0" by (cases k) auto
  obtain took1 status1 body1 ps qs s6 where
    i: "ingest_pipeline W st' = (Val (), s6)"
    by (rule ingest_pipeline_ro_E [OF assms, of st'])
  from ingest_pipeline_heading [of W st'] i obtain es1 where
    h: "trace s6 = trace st' @ ?h @ es1" by auto
  from i have fp: "from_pipeline W st' = from_index W s6"
    by (simp add: from_pipeline_def thn_def)
  from from_index_run [of W s6] fp p(1) obtain es2 where
    e2: "trace s = trace s6 @ es2" by (auto simp: adds_def)
  from h e2 p(2) have es: "es = ?h @ es1 @ es2" by simp
  with p(3) have post: "list_all (since W Pipeline) (es1 @ es2)" by simp
  have 1: "from_deploy W st = Some (Exit 0, s)" using fd p(1) n by simp
  have 2: "trace s = trace st @
       Print ''[OK] Skipping deployment changes (read-only mode).'' #
       Http GET (model_url W @ ''/_stats?pretty'') (auth W) None took status body #
       ?h @ (es1 @ es2)"
    using p(2) d(2) es by simp
  from 1 2 post show thesis by (rule that)
qed

text \<open>
  Claim C8, as the code has it. In a run without \<open>--fix\<close> no POST is sent, so no start
  command. A run that gets past the model listing (it is the run that returns 0) prints
  the line about skipping the deployment changes, sends the statistics query, a GET
  without a body, and goes straight on to the heading of the next step: whatever the
  query comes back with, nothing is printed about it. The query is sent once in the whole
  run, and not at all in a run that stops earlier.
\<close>

theorem read_only_status_is_queried_and_dropped:
  assumes run: "main W = Some (r, s)" and ro: "\<not> fix_mode W"
  shows
    "Http POST u a p took status body \<notin> set (trace s) \<and>
     (r = Exit 0 \<longrightarrow>
        (\<exists>took1 status1 body1.
           Http GET (model_url W @ ''/_stats?pretty'') (auth W) None took1 status1 body1
             \<in> set (trace s))) \<and>
     (Http GET (model_url W @ ''/_stats?pretty'') a' p' took' status' body' \<in> set (trace s) \<longrightarrow>
        r = Exit 0 \<and> a' = auth W \<and> p' = None \<and>
        (\<exists>pre post.
           trace s = pre @
             Print ''[OK] Skipping deployment changes (read-only mode).'' #
             Http GET (model_url W @ ''/_stats?pretty'') a' p' took' status' body' #
             heading_ev ''4) Ingest pipeline: ensure it points to the correct model id (if --fix)'' @
             post \<and>
           (\<forall>x y t c b. Http GET (model_url W @ ''/_stats?pretty'') x y t c b \<notin> set pre \<and>
                        Http GET (model_url W @ ''/_stats?pretty'') x y t c b \<notin> set post)))"
proof -
  let ?su = "model_url W @ ''/_stats?pretty''"
  let ?h = "heading_ev ''4) Ingest pipeline: ensure it points to the correct model id (if --fix)''"
  let ?ok = "Print ''[OK] Skipping deployment changes (read-only mode).''"
  let ?g = "Http GET ?su a' p' took' status' body'"
  have g_ge: "\<And>k x y t c b. emits W k (Http GET ?su x y t c b) \<Longrightarrow> stage_no Deploy \<le> stage_no k"
    and g_lt: "\<And>k x y t c b. emits W k (Http GET ?su x y t c b) \<Longrightarrow> stage_no k < stage_no Pipeline"
  proof -
    fix k x y t c b assume "emits W k (Http GET ?su x y t c b)"
    then have "k = Deploy" using stats_only_deploy by blast
    then show "stage_no Deploy \<le> stage_no k" and "stage_no k < stage_no Pipeline" by simp_all
  qed
  have nopost: "Http POST u a p took status body \<notin> set (trace s)"
    using trace_emitted [OF run] no_post_read_only [OF ro] by blast
  from gets_deploy [of W] consider
    (stopped) n s' where "main W = Some (Exit n, s')" "codes_before W Deploy n"
      "list_all (before W Deploy) (trace s')"
    | (reached) s5 where "main W = from_deploy W s5" "list_all (before W Deploy) (trace s5)"
    unfolding gets_to_def by blast
  then show ?thesis
  proof cases
    case stopped
    with run have s: "s' = s" "r = Exit n" by simp_all
    have "?g \<notin> set (trace s')" using stopped(3) g_ge by (rule not_in_before)
    moreover have "n \<noteq> 0"
    proof
      assume "n = 0"
      have "\<And>k. n \<in> stage_codes W k \<Longrightarrow> stage_no Deploy \<le> stage_no k"
      proof -
        fix k assume "n \<in> stage_codes W k"
        with \<open>n = 0\<close> have "k = Logs" using stage_of_code by blast
        then show "stage_no Deploy \<le> stage_no k" by simp
      qed
      with stopped(2) show False by (rule code_not_before)
    qed
    ultimately show ?thesis using s nopost by simp
  next
    case reached
    obtain s0 took1 status1 body1 post where
      f: "from_deploy W s5 = Some (Exit 0, s0)"
         "trace s0 = trace s5 @ ?ok # Http GET ?su (auth W) None took1 status1 body1 # ?h @ post"
         "list_all (since W Pipeline) post"
      by (rule from_deploy_ro_E [OF ro, of s5])
    from reached(1) f(1) run have rs: "r = Exit 0" "s = s0" by simp_all
    let ?g1 = "Http GET ?su (auth W) None took1 status1 body1"
    have tr: "trace s = (trace s5 @ [?ok]) @ ?g1 # ?h @ post" using f(2) rs(2) by simp
    have early: "\<And>x y t c b. Http GET ?su x y t c b \<notin> set (trace s5 @ [?ok])"
    proof -
      fix x y t c b
      have "Http GET ?su x y t c b \<notin> set (trace s5)" using reached(2) g_ge by (rule not_in_before)
      then show "Http GET ?su x y t c b \<notin> set (trace s5 @ [?ok])" by simp
    qed
    have late: "\<And>x y t c b. Http GET ?su x y t c b \<notin> set post"
      using f(3) g_lt by (rule not_in_since)
    have in1: "?g1 \<in> set (trace s)" using tr by simp
    have same: "?g \<in> set (trace s) \<longrightarrow> ?g = ?g1"
      using tr early [of a' p' took' status' body'] late [of a' p' took' status' body']
        prints_no_http [OF prints_heading]
      by auto
    have c2: "r = Exit 0 \<longrightarrow>
        (\<exists>took1 status1 body1. Http GET ?su (auth W) None took1 status1 body1 \<in> set (trace s))"
      using in1 by blast
    have c3: "?g \<in> set (trace s) \<longrightarrow>
        r = Exit 0 \<and> a' = auth W \<and> p' = None \<and>
        (\<exists>pre post.
           trace s = pre @ ?ok # ?g # ?h @ post \<and>
           (\<forall>x y t c b. Http GET ?su x y t c b \<notin> set pre \<and> Http GET ?su x y t c b \<notin> set post))"
    proof
      assume "?g \<in> set (trace s)"
      with same have eq: "a' = auth W" "p' = None" "took' = took1" "status' = status1"
        "body' = body1"
        by simp_all
      have e5: "\<forall>x y t c b. Http GET ?su x y t c b \<notin> set (trace s5) \<and>
                  Http GET ?su x y t c b \<notin> set post"
        using early late by simp
      from f(2) rs(2) eq have "trace s = trace s5 @ ?ok # ?g # ?h @ post" by simp
      with e5 have "\<exists>pre post.
           trace s = pre @ ?ok # ?g # ?h @ post \<and>
           (\<forall>x y t c b. Http GET ?su x y t c b \<notin> set pre \<and> Http GET ?su x y t c b \<notin> set post)"
        by blast
      with rs(1) eq show "r = Exit 0 \<and> a' = auth W \<and> p' = None \<and>
        (\<exists>pre post.
           trace s = pre @ ?ok # ?g # ?h @ post \<and>
           (\<forall>x y t c b. Http GET ?su x y t c b \<notin> set pre \<and> Http GET ?su x y t c b \<notin> set post))"
        by simp
    qed
    from nopost c2 c3 show ?thesis by (intro conjI)
  qed
qed


theorem read_only_status_is_queried_and_dropped_witness:
  "\<exists>s. main quiet_world = Some (Exit 0, s) \<and> \<not> fix_mode quiet_world \<and>
     Http GET (model_url quiet_world @ ''/_stats?pretty'') (auth quiet_world) None 0 503
       ''deployment busy'' \<in> set (trace s) \<and>
     (\<exists>pre post.
        trace s = pre @
          Print ''[OK] Skipping deployment changes (read-only mode).'' #
          Http GET (model_url quiet_world @ ''/_stats?pretty'') (auth quiet_world) None 0 503
            ''deployment busy'' #
          heading_ev ''4) Ingest pipeline: ensure it points to the correct model id (if --fix)'' @
          post)"
proof -
  let ?g = "Http GET (model_url quiet_world @ ''/_stats?pretty'') (auth quiet_world) None 0 503
       ''deployment busy''"
  from quiet_run obtain s where s: "main quiet_world = Some (Exit 0, s)"
    and e: "?g \<in> set (trace s)"
    by (cases "main quiet_world") (auto simp: quiet_urls)
  from read_only_status_is_queried_and_dropped [OF s quiet_urls(3),
      of _ _ _ _ _ _ "auth quiet_world" None 0 503 "''deployment busy''"] e
  have "\<exists>pre post.
        trace s = pre @
          Print ''[OK] Skipping deployment changes (read-only mode).'' # ?g #
          heading_ev ''4) Ingest pipeline: ensure it points to the correct model id (if --fix)'' @
          post"
    by blast
  with s e quiet_urls(3) show ?thesis by blast
qed

lemma get_all_objs:
  "list_all is_obj ms \<Longrightarrow>
     \<exists>vs. get_all ms ''model_id'' = Some vs \<and>
          (\<forall>i. JStr i \<in> set vs \<longleftrightarrow> JStr i \<in> set (concat (map entry_id ms)))"
proof (induction ms)
  case Nil
  then show ?case by simp
next
  case (Cons m ms)
  then obtain vs where vs: "get_all ms ''model_id'' = Some vs"
    "\<forall>i. JStr i \<in> set vs \<longleftrightarrow> JStr i \<in> set (concat (map entry_id ms))"
    by auto
  from Cons.prems obtain kvs where m: "m = JObj kvs" by (cases m) simp_all
  show ?case using vs m by (auto split: option.splits)
qed

lemma get_all_some_objs: "get_all ms k = Some vs \<Longrightarrow> list_all is_obj ms"
proof (induction ms arbitrary: vs)
  case Nil
  then show ?case by simp
next
  case (Cons m ms)
  then show ?case by (cases m) (auto split: bind_splits)
qed

lemma get_all_strs: "get_all (map (\<lambda>x. JStr (f x)) xs) k = (if xs = [] then Some [] else None)"
  by (cases xs) simp_all

lemma parse_models_cases:
  "parse_models W bd = [] \<or>
   (\<exists>vs. get_all (entries W bd) ''model_id'' = Some vs \<and> parse_models W bd = vs)"
proof (cases "json_loads W bd")
  case None
  then show ?thesis by (simp add: parse_models_def)
next
  case (Some jj)
  show ?thesis
  proof (cases jj)
    case (JObj kvs)
    show ?thesis
    proof (cases "map_of kvs ''trained_model_configs''")
      case None
      with Some JObj show ?thesis by (simp add: parse_models_def entries_def)
    next
      case (Some cfgs)
      with \<open>json_loads W bd = Some jj\<close> JObj show ?thesis
        by (cases cfgs) (auto simp: parse_models_def entries_def get_all_strs split: option.splits)
    qed
  qed (use Some in \<open>simp_all add: parse_models_def\<close>)
qed

lemma parsed_is_listed:
  assumes "JStr i \<in> set (parse_models W bd)"
  shows "JStr i \<in> set (listed_ids W bd)"
proof -
  from parse_models_cases [of W bd] assms obtain vs where
    vs: "get_all (entries W bd) ''model_id'' = Some vs" "parse_models W bd = vs"
    by auto
  from vs(1) have "list_all is_obj (entries W bd)" by (rule get_all_some_objs)
  from get_all_objs [OF this] vs assms show ?thesis by (auto simp: listed_ids_def)
qed

lemma listed_is_parsed:
  assumes "list_all is_obj (entries W bd)" and "JStr i \<in> set (listed_ids W bd)"
  shows "JStr i \<in> set (parse_models W bd)"
proof -
  from get_all_objs [OF assms(1)] obtain vs where
    vs: "get_all (entries W bd) ''model_id'' = Some vs"
        "\<forall>i. JStr i \<in> set vs \<longleftrightarrow> JStr i \<in> set (concat (map entry_id (entries W bd)))"
    by blast
  from assms(2) have ne: "entries W bd \<noteq> []" by (auto simp: listed_ids_def)
  have "parse_models W bd = vs"
  proof (cases "json_loads W bd")
    case None
    with ne show ?thesis by (simp add: entries_def)
  next
    case (Some jj)
    show ?thesis
    proof (cases jj)
      case (JObj kvs)
      show ?thesis
      proof (cases "map_of kvs ''trained_model_configs''")
        case None
        with Some JObj ne show ?thesis by (simp add: entries_def)
      next
        case (Some cfgs)
        with \<open>json_loads W bd = Some jj\<close> JObj ne vs(1) show ?thesis
          by (cases cfgs) (simp_all add: parse_models_def entries_def)
      qed
    qed (use Some ne in \<open>simp_all add: entries_def\<close>)
  qed
  with vs(2) assms(2) show ?thesis by (simp add: listed_ids_def)
qed


text \<open>
  The other direction: in fix mode, a listing that came back with 200 and in which the
  script did not find the target is followed by the download request.
\<close>

lemma unfound_model_is_downloaded:
  assumes run: "main W = Some (r, s)" and fx: "fix_mode W"
    and g: "Http GET (ES_URL W @ ''/_ml/trained_models?size=200&pretty'') a p took 200 body
              \<in> set (trace s)"
    and nf: "JStr (ELSER_MODEL_ID W) \<notin> set (parse_models W body)"
  shows "\<exists>t c b. Http POST (model_url W @ ''/_download?pretty'') (auth W) None t c b
                   \<in> set (trace s)"
proof -
  let ?lu = "ES_URL W @ ''/_ml/trained_models?size=200&pretty''"
  let ?du = "model_url W @ ''/_download?pretty''"
  let ?g = "Http GET ?lu a p took 200 body"
  have g_ge: "\<And>k. emits W k ?g \<Longrightarrow> stage_no Models \<le> stage_no k"
    and g_lt: "\<And>k. emits W k ?g \<Longrightarrow> stage_no k < stage_no Download"
  proof -
    fix k assume "emits W k ?g"
    then have "k = Models" using list_only_models by blast
    then show "stage_no Models \<le> stage_no k" and "stage_no k < stage_no Download" by simp_all
  qed
  from gets_models [of W] consider
    (stopped) n s' where "main W = Some (Exit n, s')" "list_all (before W Models) (trace s')"
    | (reached) s3 where "main W = from_models W s3" "list_all (before W Models) (trace s3)"
    unfolding gets_to_def by blast
  then show ?thesis
  proof cases
    case stopped
    with run have s: "s' = s" by simp
    have "?g \<notin> set (trace s')" using stopped(2) g_ge by (rule not_in_before)
    with g s show ?thesis by simp
  next
    case reached
    obtain took1 status1 body1 ps qs st' where
      l: "list_models W s3 =
            (if status1 \<noteq> 200 then Exit 4
             else Val (JStr (ELSER_MODEL_ID W) \<in> set (parse_models W body1)), st')"
         "trace st' = trace s3 @ ps @ Http GET ?lu (auth W) None took1 status1 body1 # qs"
         "list_all is_print ps" "list_all is_print qs"
      by (rule list_models_E [of W s3])
    let ?g1 = "Http GET ?lu (auth W) None took1 status1 body1"
    have early_g: "?g \<notin> set (trace s3)" using reached(2) g_ge by (rule not_in_before)
    have in_st': "?g \<in> set (trace st') \<longrightarrow> ?g = ?g1"
      using l(2) early_g prints_no_http [OF l(3)] prints_no_http [OF l(4)] by auto
    have ok: "status1 = 200"
    proof (rule ccontr)
      assume "status1 \<noteq> 200"
      with l(1) have "list_models W s3 = (Exit 4, st')" by simp
      with reached(1) run have "s = st'" by (simp add: from_models_def)
      with in_st' g \<open>status1 \<noteq> 200\<close> show False by auto
    qed
    let ?have = "JStr (ELSER_MODEL_ID W) \<in> set (parse_models W body1)"
    from ok l(1) have "list_models W s3 = (Val ?have, st')" by simp
    with reached(1) run have m: "from_download W ?have st' = Some (r, s)"
      by (simp add: from_models_def)
    from from_download_run [of W ?have st'] m obtain es where
      es: "trace s = trace st' @ es" "list_all (since W Download) es"
      by (auto simp: adds_def)
    have "?g \<notin> set es" using es(2) g_lt by (rule not_in_since)
    with es(1) in_st' g have "?g = ?g1" by auto
    with nf have nh: "\<not> ?have" by simp
    with m fx have d: "thn (download_model W st') (\<lambda>u. from_deploy W) = Some (r, s)"
      by (simp add: from_download_def)
    obtain took2 status2 body2 ps2 rest r2 st2 where
      dl: "download_model W st' = Some (r2, st2)"
          "trace st2 = trace st' @ ps2 @ Http POST ?du (auth W) None took2 status2 body2 # rest"
          "r2 = Val () \<or> r2 = Exit 5 \<or> r2 = Exit 6"
      by (rule download_model_E [of W st'])
    have "\<exists>es2. trace s = trace st2 @ es2"
    proof (cases "r2 = Val ()")
      case True
      with d dl(1) have "from_deploy W st2 = Some (r, s)" by (simp add: thn_def)
      with from_deploy_run [of W st2] show ?thesis by (auto simp: adds_def)
    next
      case False
      with dl(3) d dl(1) have "s = st2" by (auto simp: thn_def)
      then show ?thesis by simp
    qed
    then obtain es2 where "trace s = trace st2 @ es2" by blast
    with dl(2) have "Http POST ?du (auth W) None took2 status2 body2 \<in> set (trace s)" by simp
    then show ?thesis by blast
  qed
qed


lemma not_plain_not_parsed:
  assumes "\<not> list_all is_obj (entries W bd)"
  shows "parse_models W bd = []"
  using parse_models_cases [of W bd] get_all_some_objs [of "entries W bd" "''model_id''"] assms
  by auto

lemma stocked_run:
  "map_option (\<lambda>(r, s). (r, calls (trace s))) (main stocked_world) =
   Some (Exit 0,
     [Run docker_ps 0 0 ''up'' [],
      Http GET ''http://localhost:9200/'' (auth stocked_world) None 1 200 ''{}'',
      Http GET ''http://localhost:9200/_license?pretty'' (auth stocked_world) None 1 200 ''{}'',
      Http GET ''http://localhost:9200/_ml/trained_models?size=200&pretty'' (auth stocked_world)
        None 1 200 ''models'',
      Http POST ''http://localhost:9200/_ml/trained_models/.elser_model_2/deployment/_start?pretty''
        (auth stocked_world) (Some start_payload) 1 409 ''conflict'',
      Http GET ''http://localhost:9200/_ml/trained_models/.elser_model_2/_stats?pretty''
        (auth stocked_world) None 1 200 ''stats'',
      Http PUT ''http://localhost:9200/_ingest/pipeline/elser_oracle_pipeline?pretty''
        (auth stocked_world) (Some (pipeline_payload stocked_world)) 1 200 ''{}'',
      Http DELETE ''http://localhost:9200/oracle_elser_index?pretty'' (auth stocked_world) None
        1 404 ''no such index'',
      Http PUT ''http://localhost:9200/oracle_elser_index?pretty'' (auth stocked_world)
        (Some index_payload) 1 200 ''{}'',
      Run (compose_restart stocked_world) 2 1 [] ''no such service'',
      Run (docker_restart stocked_world) 2 1 [] ''no such service'',
      Sleep 20,
      Http GET ''http://localhost:9200/oracle_elser_index/_count?pretty'' (auth stocked_world) None
        1 200 ''{}'',
      Run (docker_logs stocked_world) 0 0 ''up'' []])"
  by (simp add: eval_defs fix_world_def stocked_world_def)

lemma odd_run:
  "map_option (\<lambda>(r, s). (r, calls (trace s))) (main odd_world) =
   Some (Exit 0,
     [Run docker_ps 0 0 ''up'' [],
      Http GET ''http://localhost:9200/'' (auth odd_world) None 1 200 ''{}'',
      Http GET ''http://localhost:9200/_license?pretty'' (auth odd_world) None 1 200 ''{}'',
      Http GET ''http://localhost:9200/_ml/trained_models?size=200&pretty'' (auth odd_world) None
        1 200 ''models'',
      Http POST ''http://localhost:9200/_ml/trained_models/.elser_model_2/_download?pretty''
        (auth odd_world) None 1 200 ''{}'',
      Http GET ''http://localhost:9200/_ml/trained_models/.elser_model_2?pretty''
        (auth odd_world) None 1 200 ''{}'',
      Http POST ''http://localhost:9200/_ml/trained_models/.elser_model_2/deployment/_start?pretty''
        (auth odd_world) (Some start_payload) 1 200 ''{}'',
      Http GET ''http://localhost:9200/_ml/trained_models/.elser_model_2/_stats?pretty''
        (auth odd_world) None 1 200 ''stats'',
      Http PUT ''http://localhost:9200/_ingest/pipeline/elser_oracle_pipeline?pretty''
        (auth odd_world) (Some (pipeline_payload odd_world)) 1 200 ''{}'',
      Http DELETE ''http://localhost:9200/oracle_elser_index?pretty'' (auth odd_world) None
        1 200 ''{}'',
      Http PUT ''http://localhost:9200/oracle_elser_index?pretty'' (auth odd_world)
        (Some index_payload) 1 200 ''{}'',
      Run (compose_restart odd_world) 2 1 [] ''no such service'',
      Run (docker_restart odd_world) 2 1 [] ''no such service'',
      Sleep 20,
      Http GET ''http://localhost:9200/oracle_elser_index/_count?pretty'' (auth odd_world) None
        1 200 ''{}'',
      Run (docker_logs odd_world) 0 0 ''up'' []])"
  by (simp add: eval_defs fix_world_def fresh_world_def odd_world_def)

lemma listings:
  "entries stocked_world ''models'' =
     [JObj [(''model_id'', JStr ''.multilingual-e5-small'')],
      JObj [(''model_id'', JStr ''.elser_model_2'')]]"
  "listed_ids stocked_world ''models'' = [JStr ''.multilingual-e5-small'', JStr ''.elser_model_2'']"
  "ELSER_MODEL_ID stocked_world = ''.elser_model_2''"
  "entries fresh_world ''{}'' = []"
  "listed_ids fresh_world ''{}'' = []"
  "entries odd_world ''models'' = [JObj [(''model_id'', JStr ''.elser_model_2'')], JInt 5]"
  "listed_ids odd_world ''models'' = [JStr ''.elser_model_2'']"
  "ELSER_MODEL_ID odd_world = ''.elser_model_2''"
  by (simp_all add: entries_def listed_ids_def ELSER_MODEL_ID_def env_def fix_world_def
        fresh_world_def stocked_world_def odd_world_def)

lemma more_urls:
  "ES_URL stocked_world = ''http://localhost:9200''"
  "model_url stocked_world = ''http://localhost:9200/_ml/trained_models/.elser_model_2''"
  "fix_mode stocked_world" "fix_mode odd_world"
  by (simp_all add: model_url_def ES_URL_def ELSER_MODEL_ID_def env_def rstrip_slash_def
        fix_mode_def fix_world_def fresh_world_def stocked_world_def odd_world_def)


text \<open>
  The claim as the specification words it speaks of the identifiers the listing returns.
  In \<open>odd_world\<close>, a run with \<open>--fix\<close>, the listing comes back with 200 and names the
  target, next to an entry that is a number. The script cannot read that entry, takes the
  list of models to be empty, sends the download request and polls for the model.
\<close>

theorem listed_model_is_downloaded_counterexample:
  "fix_mode odd_world \<and>
   JStr (ELSER_MODEL_ID odd_world) \<in> set (listed_ids odd_world ''models'') \<and>
   requests odd_world =
     [Run docker_ps 0 0 ''up'' [],
      Http GET ''http://localhost:9200/'' (auth odd_world) None 1 200 ''{}'',
      Http GET ''http://localhost:9200/_license?pretty'' (auth odd_world) None 1 200 ''{}'',
      Http GET ''http://localhost:9200/_ml/trained_models?size=200&pretty'' (auth odd_world) None
        1 200 ''models'',
      Http POST ''http://localhost:9200/_ml/trained_models/.elser_model_2/_download?pretty''
        (auth odd_world) None 1 200 ''{}'',
      Http GET ''http://localhost:9200/_ml/trained_models/.elser_model_2?pretty''
        (auth odd_world) None 1 200 ''{}'',
      Http POST ''http://localhost:9200/_ml/trained_models/.elser_model_2/deployment/_start?pretty''
        (auth odd_world) (Some start_payload) 1 200 ''{}'',
      Http GET ''http://localhost:9200/_ml/trained_models/.elser_model_2/_stats?pretty''
        (auth odd_world) None 1 200 ''stats'',
      Http PUT ''http://localhost:9200/_ingest/pipeline/elser_oracle_pipeline?pretty''
        (auth odd_world) (Some (pipeline_payload odd_world)) 1 200 ''{}'',
      Http DELETE ''http://localhost:9200/oracle_elser_index?pretty'' (auth odd_world) None
        1 200 ''{}'',
      Http PUT ''http://localhost:9200/oracle_elser_index?pretty'' (auth odd_world)
        (Some index_payload) 1 200 ''{}'',
      Run (compose_restart odd_world) 2 1 [] ''no such service'',
      Run (docker_restart odd_world) 2 1 [] ''no such service'',
      Sleep 20,
      Http GET ''http://localhost:9200/oracle_elser_index/_count?pretty'' (auth odd_world) None
        1 200 ''{}'',
      Run (docker_logs odd_world) 0 0 ''up'' []]"
  using odd_run by (cases "main odd_world") (auto simp: requests_def listings more_urls)

text \<open>
  Claim C6, as the code has it. If the model listing came back with 200, every entry of
  the returned list is an object and the list names the target model, then in either mode
  no download request is sent anywhere in the run, and between the listing and the first
  request of the deployment step (the start request in fix mode, the statistics query
  otherwise) there is nothing but output: the download step and its readiness polling are
  skipped. A download request in the trace means fix mode and a listing that came back
  with 200 and either does not name the target or has an entry that is not an object; and
  in fix mode every such listing is followed by the download request.
\<close>

theorem listed_model_is_not_downloaded:
  assumes run: "main W = Some (r, s)"
  shows
    "(Http GET (ES_URL W @ ''/_ml/trained_models?size=200&pretty'') a p took 200 body \<in> set (trace s) \<and>
      list_all is_obj (entries W body) \<and>
      JStr (ELSER_MODEL_ID W) \<in> set (listed_ids W body) \<longrightarrow>
        (\<forall>x y t c b. Http POST (model_url W @ ''/_download?pretty'') x y t c b \<notin> set (trace s)) \<and>
        (\<exists>pre mid e post.
           trace s = pre @ Http GET (ES_URL W @ ''/_ml/trained_models?size=200&pretty'') a p took 200 body #
                     mid @ e # post \<and>
           list_all is_print mid \<and>
           (if fix_mode W
            then \<exists>t c b. e = Http POST (model_url W @ ''/deployment/_start?pretty'') (auth W)
                              (Some start_payload) t c b
            else \<exists>t c b. e = Http GET (model_url W @ ''/_stats?pretty'') (auth W) None t c b))) \<and>
     (Http POST (model_url W @ ''/_download?pretty'') a' p' took' status' body' \<in> set (trace s) \<longrightarrow>
        fix_mode W \<and>
        (\<exists>took1 body1.
           Http GET (ES_URL W @ ''/_ml/trained_models?size=200&pretty'') (auth W) None took1 200 body1
             \<in> set (trace s) \<and>
           (JStr (ELSER_MODEL_ID W) \<in> set (listed_ids W body1) \<longrightarrow>
              \<not> list_all is_obj (entries W body1)))) \<and>
     (fix_mode W \<and>
      Http GET (ES_URL W @ ''/_ml/trained_models?size=200&pretty'') a p took 200 body \<in> set (trace s) \<and>
      (JStr (ELSER_MODEL_ID W) \<in> set (listed_ids W body) \<longrightarrow> \<not> list_all is_obj (entries W body)) \<longrightarrow>
        (\<exists>t c b. Http POST (model_url W @ ''/_download?pretty'') (auth W) None t c b
                   \<in> set (trace s)))"
proof -
  let ?lu = "ES_URL W @ ''/_ml/trained_models?size=200&pretty''"
  let ?du = "model_url W @ ''/_download?pretty''"
  let ?id = "JStr (ELSER_MODEL_ID W)"
  note found = found_model_is_not_downloaded [OF run]
  have 1: "Http GET ?lu a p took 200 body \<in> set (trace s) \<and>
      list_all is_obj (entries W body) \<and> ?id \<in> set (listed_ids W body) \<longrightarrow>
        (\<forall>x y t c b. Http POST ?du x y t c b \<notin> set (trace s)) \<and>
        (\<exists>pre mid e post.
           trace s = pre @ Http GET ?lu a p took 200 body # mid @ e # post \<and>
           list_all is_print mid \<and>
           (if fix_mode W
            then \<exists>t c b. e = Http POST (model_url W @ ''/deployment/_start?pretty'') (auth W)
                              (Some start_payload) t c b
            else \<exists>t c b. e = Http GET (model_url W @ ''/_stats?pretty'') (auth W) None t c b))"
  proof
    assume h: "Http GET ?lu a p took 200 body \<in> set (trace s) \<and>
      list_all is_obj (entries W body) \<and> ?id \<in> set (listed_ids W body)"
    then have "?id \<in> set (parse_models W body)" by (simp add: listed_is_parsed)
    with h found [of a p took body]
    show "(\<forall>x y t c b. Http POST ?du x y t c b \<notin> set (trace s)) \<and>
        (\<exists>pre mid e post.
           trace s = pre @ Http GET ?lu a p took 200 body # mid @ e # post \<and>
           list_all is_print mid \<and>
           (if fix_mode W
            then \<exists>t c b. e = Http POST (model_url W @ ''/deployment/_start?pretty'') (auth W)
                              (Some start_payload) t c b
            else \<exists>t c b. e = Http GET (model_url W @ ''/_stats?pretty'') (auth W) None t c b))"
      by blast
  qed
  have 2: "Http POST ?du a' p' took' status' body' \<in> set (trace s) \<longrightarrow>
        fix_mode W \<and>
        (\<exists>took1 body1.
           Http GET ?lu (auth W) None took1 200 body1 \<in> set (trace s) \<and>
           (?id \<in> set (listed_ids W body1) \<longrightarrow> \<not> list_all is_obj (entries W body1)))"
  proof
    assume "Http POST ?du a' p' took' status' body' \<in> set (trace s)"
    with found [of _ _ _ _ a' p' took' status' body'] obtain took1 body1 where
      f: "fix_mode W" "Http GET ?lu (auth W) None took1 200 body1 \<in> set (trace s)"
         "?id \<notin> set (parse_models W body1)"
      by blast
    from f(3) have "?id \<in> set (listed_ids W body1) \<longrightarrow> \<not> list_all is_obj (entries W body1)"
      using listed_is_parsed by blast
    with f(1,2) show "fix_mode W \<and>
        (\<exists>took1 body1.
           Http GET ?lu (auth W) None took1 200 body1 \<in> set (trace s) \<and>
           (?id \<in> set (listed_ids W body1) \<longrightarrow> \<not> list_all is_obj (entries W body1)))"
      by blast
  qed
  have 3: "fix_mode W \<and> Http GET ?lu a p took 200 body \<in> set (trace s) \<and>
      (?id \<in> set (listed_ids W body) \<longrightarrow> \<not> list_all is_obj (entries W body)) \<longrightarrow>
        (\<exists>t c b. Http POST ?du (auth W) None t c b \<in> set (trace s))"
  proof
    assume h: "fix_mode W \<and> Http GET ?lu a p took 200 body \<in> set (trace s) \<and>
      (?id \<in> set (listed_ids W body) \<longrightarrow> \<not> list_all is_obj (entries W body))"
    have "?id \<notin> set (parse_models W body)"
    proof (cases "list_all is_obj (entries W body)")
      case True
      with h have "?id \<notin> set (listed_ids W body)" by blast
      then show ?thesis using parsed_is_listed by blast
    next
      case False
      then show ?thesis by (simp add: not_plain_not_parsed)
    qed
    with h show "\<exists>t c b. Http POST ?du (auth W) None t c b \<in> set (trace s)"
      using unfound_model_is_downloaded [OF run] by blast
  qed
  from 1 2 3 show ?thesis by (intro conjI)
qed

theorem listed_model_is_not_downloaded_witness:
  "(\<exists>s. main stocked_world = Some (Exit 0, s) \<and>
      Http GET (ES_URL stocked_world @ ''/_ml/trained_models?size=200&pretty'') (auth stocked_world)
        None 1 200 ''models'' \<in> set (trace s) \<and>
      list_all is_obj (entries stocked_world ''models'') \<and>
      JStr (ELSER_MODEL_ID stocked_world) \<in> set (listed_ids stocked_world ''models'') \<and>
      (\<exists>pre mid post t c b.
         trace s = pre @ Http GET (ES_URL stocked_world @ ''/_ml/trained_models?size=200&pretty'')
                          (auth stocked_world) None 1 200 ''models'' #
                   mid @ Http POST (model_url stocked_world @ ''/deployment/_start?pretty'')
                           (auth stocked_world) (Some start_payload) t c b # post \<and>
         list_all is_print mid)) \<and>
   (\<exists>s. main fresh_world = Some (Exit 0, s) \<and> fix_mode fresh_world \<and>
      Http POST (model_url fresh_world @ ''/_download?pretty'') (auth fresh_world) None 1 200 ''{}''
        \<in> set (trace s) \<and>
      Http GET (ES_URL fresh_world @ ''/_ml/trained_models?size=200&pretty'') (auth fresh_world)
        None 1 200 ''{}'' \<in> set (trace s) \<and>
      JStr (ELSER_MODEL_ID fresh_world) \<notin> set (listed_ids fresh_world ''{}'') \<and>
      (\<exists>t c b. Http POST (model_url fresh_world @ ''/_download?pretty'') (auth fresh_world) None
                  t c b \<in> set (trace s)))"
proof -
  let ?lu = "ES_URL stocked_world @ ''/_ml/trained_models?size=200&pretty''"
  from stocked_run obtain s where s: "main stocked_world = Some (Exit 0, s)"
    and c: "Http GET ?lu (auth stocked_world) None 1 200 ''models'' \<in> set (calls (trace s))"
    by (cases "main stocked_world") (auto simp: more_urls)
  from c have e: "Http GET ?lu (auth stocked_world) None 1 200 ''models'' \<in> set (trace s)"
    by (rule calls_subset)
  have l: "list_all is_obj (entries stocked_world ''models'')"
    "JStr (ELSER_MODEL_ID stocked_world) \<in> set (listed_ids stocked_world ''models'')"
    by (simp_all add: listings)
  from listed_model_is_not_downloaded [OF s, of "auth stocked_world" None 1 "''models''"]
    e l more_urls(3)
  have "\<exists>pre mid e post.
         trace s = pre @ Http GET ?lu (auth stocked_world) None 1 200 ''models'' # mid @ e # post \<and>
         list_all is_print mid \<and>
         (\<exists>t c b. e = Http POST (model_url stocked_world @ ''/deployment/_start?pretty'')
                         (auth stocked_world) (Some start_payload) t c b)"
    by simp
  then have "\<exists>pre mid post t c b.
         trace s = pre @ Http GET ?lu (auth stocked_world) None 1 200 ''models'' #
                   mid @ Http POST (model_url stocked_world @ ''/deployment/_start?pretty'')
                           (auth stocked_world) (Some start_payload) t c b # post \<and>
         list_all is_print mid"
    by blast
  with s e l
  have 1: "\<exists>s. main stocked_world = Some (Exit 0, s) \<and>
      Http GET ?lu (auth stocked_world) None 1 200 ''models'' \<in> set (trace s) \<and>
      list_all is_obj (entries stocked_world ''models'') \<and>
      JStr (ELSER_MODEL_ID stocked_world) \<in> set (listed_ids stocked_world ''models'') \<and>
      (\<exists>pre mid post t c b.
         trace s = pre @ Http GET ?lu (auth stocked_world) None 1 200 ''models'' #
                   mid @ Http POST (model_url stocked_world @ ''/deployment/_start?pretty'')
                           (auth stocked_world) (Some start_payload) t c b # post \<and>
         list_all is_print mid)"
    by blast
  let ?du = "model_url fresh_world @ ''/_download?pretty''"
  let ?fl = "ES_URL fresh_world @ ''/_ml/trained_models?size=200&pretty''"
  from fresh_run obtain s' where s': "main fresh_world = Some (Exit 0, s')"
    and c': "Http POST ?du (auth fresh_world) None 1 200 ''{}'' \<in> set (calls (trace s'))"
       "Http GET ?fl (auth fresh_world) None 1 200 ''{}'' \<in> set (calls (trace s'))"
    by (cases "main fresh_world") (auto simp: fresh_urls)
  from c' have e': "Http POST ?du (auth fresh_world) None 1 200 ''{}'' \<in> set (trace s')"
    "Http GET ?fl (auth fresh_world) None 1 200 ''{}'' \<in> set (trace s')"
    by (simp_all add: calls_subset)
  have n: "JStr (ELSER_MODEL_ID fresh_world) \<notin> set (listed_ids fresh_world ''{}'')"
    by (simp add: listings)
  from listed_model_is_not_downloaded [OF s', of "auth fresh_world" None 1 "''{}''"]
    e'(2) n fresh_urls(3)
  have "\<exists>t c b. Http POST ?du (auth fresh_world) None t c b \<in> set (trace s')"
    by blast
  with s' e' n fresh_urls(3)
  have 2: "\<exists>s. main fresh_world = Some (Exit 0, s) \<and> fix_mode fresh_world \<and>
      Http POST ?du (auth fresh_world) None 1 200 ''{}'' \<in> set (trace s) \<and>
      Http GET ?fl (auth fresh_world) None 1 200 ''{}'' \<in> set (trace s) \<and>
      JStr (ELSER_MODEL_ID fresh_world) \<notin> set (listed_ids fresh_world ''{}'') \<and>
      (\<exists>t c b. Http POST ?du (auth fresh_world) None t c b \<in> set (trace s))"
    by blast
  from 1 2 show ?thesis by (rule conjI)
qed
























text \<open>
  When no call raises, the script with calls that may raise runs exactly as the script
  with calls that return: what is proved of \<open>main\<close> holds of \<open>main_exc\<close> in every run
  in which the library calls return.
\<close>

lemma wait_loop_exc_of_wait_loop:
  assumes "wait_loop desc fn T s t0 st = Some y"
  shows "(\<forall>z. fx z = (Val (fst (fn z)), snd (fn z))) \<longrightarrow> wait_loop_exc desc fx T s t0 st = Some y"
proof (rule wait_loop.raw_induct
         [where P = "\<lambda>desc fn T s t0 st y.
            (\<forall>z. fx z = (Val (fst (fn z)), snd (fn z))) \<longrightarrow> wait_loop_exc desc fx T s t0 st = Some y",
          OF _ assms])
  fix wl :: "string \<Rightarrow> (state \<Rightarrow> (bool \<times> string) \<times> state) \<Rightarrow> int \<Rightarrow> int \<Rightarrow> real
     \<Rightarrow> state \<Rightarrow> (bool res \<times> state) option"
  fix desc fn T s t0 st and y :: "bool res \<times> state"
  assume IH: "\<And>desc fn T s t0 st y. wl desc fn T s t0 st = Some y \<Longrightarrow>
                (\<forall>z. fx z = (Val (fst (fn z)), snd (fn z))) \<longrightarrow>
                wait_loop_exc desc fx T s t0 st = Some y"
    and body: "(if now st - t0 < real_of_int T then
        (case fn st of
           ((ok_flag, info), st1) \<Rightarrow>
             if ok_flag then Some (Val True, ok (desc @ '': ready'') st1)
             else
               (case sleep s (print (''[WAIT] '' @ desc @ '': '' @ info) st1) of
                  (Val u, st2) \<Rightarrow> wl desc fn T s t0 st2
                | (Exit n, st2) \<Rightarrow> Some (Exit n, st2)
                | (Raise e, st2) \<Rightarrow> Some (Raise e, st2)))
      else Some (Val False,
                 fail (desc @ '': timed out after '' @ str_int T @ ''s'') st)) = Some y"
  show "(\<forall>z. fx z = (Val (fst (fn z)), snd (fn z))) \<longrightarrow> wait_loop_exc desc fx T s t0 st = Some y"
  proof
    assume fx: "\<forall>z. fx z = (Val (fst (fn z)), snd (fn z))"
    show "wait_loop_exc desc fx T s t0 st = Some y"
    proof (cases "now st - t0 < real_of_int T")
      case False
      with body show ?thesis by (subst wait_loop_exc.simps) simp
    next
      case True
      obtain b info st1 where f: "fn st = ((b, info), st1)" by (metis prod.exhaust)
      with fx have f': "fx st = (Val (b, info), st1)" by simp
      show ?thesis
      proof (cases b)
        case True
        with body \<open>now st - t0 < real_of_int T\<close> f f' show ?thesis
          by (subst wait_loop_exc.simps) simp
      next
        case False
        obtain r st2 where sl: "sleep s (print (''[WAIT] '' @ desc @ '': '' @ info) st1) = (r, st2)"
          by (metis prod.exhaust)
        show ?thesis
        proof (cases r)
          case (Val u)
          with body \<open>now st - t0 < real_of_int T\<close> f False sl
          have "wl desc fn T s t0 st2 = Some y" by simp
          from IH [OF this] fx have "wait_loop_exc desc fx T s t0 st2 = Some y" by blast
          with \<open>now st - t0 < real_of_int T\<close> f' False sl Val show ?thesis
            by (subst wait_loop_exc.simps) simp
        next
          case (Exit n)
          with body \<open>now st - t0 < real_of_int T\<close> f f' False sl show ?thesis
            by (subst wait_loop_exc.simps) simp
        next
          case (Raise e)
          with body \<open>now st - t0 < real_of_int T\<close> f f' False sl show ?thesis
            by (subst wait_loop_exc.simps) simp
        qed
      qed
    qed
  qed
qed

lemma wait_loop_of_wait_loop_exc:
  assumes "wait_loop_exc desc fx T s t0 st = Some y"
  shows "(\<forall>z. fx z = (Val (fst (fn z)), snd (fn z))) \<longrightarrow> wait_loop desc fn T s t0 st = Some y"
proof (rule wait_loop_exc.raw_induct
         [where P = "\<lambda>desc fx T s t0 st y.
            (\<forall>z. fx z = (Val (fst (fn z)), snd (fn z))) \<longrightarrow> wait_loop desc fn T s t0 st = Some y",
          OF _ assms])
  fix wl :: "string \<Rightarrow> (state \<Rightarrow> (bool \<times> string) res \<times> state) \<Rightarrow> int \<Rightarrow> int \<Rightarrow> real
     \<Rightarrow> state \<Rightarrow> (bool res \<times> state) option"
  fix desc fx T s t0 st and y :: "bool res \<times> state"
  assume IH: "\<And>desc fx T s t0 st y. wl desc fx T s t0 st = Some y \<Longrightarrow>
                (\<forall>z. fx z = (Val (fst (fn z)), snd (fn z))) \<longrightarrow>
                wait_loop desc fn T s t0 st = Some y"
    and body: "(if now st - t0 < real_of_int T then
        (case fx st of
           (Val (ok_flag, info), st1) \<Rightarrow>
             if ok_flag then Some (Val True, ok (desc @ '': ready'') st1)
             else
               (case sleep s (print (''[WAIT] '' @ desc @ '': '' @ info) st1) of
                  (Val u, st2) \<Rightarrow> wl desc fx T s t0 st2
                | (Exit n, st2) \<Rightarrow> Some (Exit n, st2)
                | (Raise e, st2) \<Rightarrow> Some (Raise e, st2))
         | (Exit n, st1) \<Rightarrow> Some (Exit n, st1)
         | (Raise e, st1) \<Rightarrow> Some (Raise e, st1))
      else Some (Val False,
                 fail (desc @ '': timed out after '' @ str_int T @ ''s'') st)) = Some y"
  show "(\<forall>z. fx z = (Val (fst (fn z)), snd (fn z))) \<longrightarrow> wait_loop desc fn T s t0 st = Some y"
  proof
    assume fx: "\<forall>z. fx z = (Val (fst (fn z)), snd (fn z))"
    show "wait_loop desc fn T s t0 st = Some y"
    proof (cases "now st - t0 < real_of_int T")
      case False
      with body show ?thesis by (subst wait_loop.simps) simp
    next
      case True
      obtain b info st1 where f: "fn st = ((b, info), st1)" by (metis prod.exhaust)
      with fx have f': "fx st = (Val (b, info), st1)" by simp
      show ?thesis
      proof (cases b)
        case True
        with body \<open>now st - t0 < real_of_int T\<close> f f' show ?thesis
          by (subst wait_loop.simps) simp
      next
        case False
        obtain r st2 where sl: "sleep s (print (''[WAIT] '' @ desc @ '': '' @ info) st1) = (r, st2)"
          by (metis prod.exhaust)
        show ?thesis
        proof (cases r)
          case (Val u)
          with body \<open>now st - t0 < real_of_int T\<close> f' False sl
          have "wl desc fx T s t0 st2 = Some y" by simp
          from IH [OF this] fx have "wait_loop desc fn T s t0 st2 = Some y" by blast
          with \<open>now st - t0 < real_of_int T\<close> f False sl Val show ?thesis
            by (subst wait_loop.simps) simp
        next
          case (Exit n)
          with body \<open>now st - t0 < real_of_int T\<close> f f' False sl show ?thesis
            by (subst wait_loop.simps) simp
        next
          case (Raise e)
          with body \<open>now st - t0 < real_of_int T\<close> f f' False sl show ?thesis
            by (subst wait_loop.simps) simp
        qed
      qed
    qed
  qed
qed

lemma wait_until_exc_calm:
  assumes "\<And>z. fx z = (Val (fst (fn z)), snd (fn z))"
  shows "wait_until_exc desc fx T s st = wait_until desc fn T s st"
proof (cases "wait_loop desc fn T s (now st) st")
  case (Some y)
  with wait_loop_exc_of_wait_loop [OF Some, of fx] assms show ?thesis
    by (simp add: wait_until_exc_def wait_until_def)
next
  case None
  show ?thesis
  proof (cases "wait_loop_exc desc fx T s (now st) st")
    case (Some y)
    with wait_loop_of_wait_loop_exc [OF Some, of fn] assms None show ?thesis by simp
  next
    case n: None
    with None show ?thesis by (simp add: wait_until_exc_def wait_until_def)
  qed
qed


lemma main_exc_calm:
  assumes r: "\<And>tr cmd. run_raises F tr cmd = None"
    and h: "\<And>tr m url a p. http_raises F tr m url a p = None"
  shows "main_exc W F = main W"
proof -
  have run_c: "\<And>cmd st. run_exc W F cmd st = (Val (fst (run W cmd st)), snd (run W cmd st))"
    by (simp add: run_exc_def r split: prod.splits)
  have http_c: "\<And>m url a p st.
      http_exc W F m url a p st = (Val (fst (http W m url a p st)), snd (http W m url a p st))"
    by (simp add: http_exc_def h split: prod.splits)
  have dr: "\<And>z. download_ready_exc W F z = (Val (fst (download_ready W z)), snd (download_ready W z))"
    by (simp add: download_ready_exc_def download_ready_def http_c bnd_def
          split: prod.splits option.splits)
  have ds: "\<And>z. deploy_status_exc W F z = (Val (fst (deploy_status W z)), snd (deploy_status W z))"
    by (simp add: deploy_status_exc_def deploy_status_def http_c bnd_def
          split: prod.splits option.splits)
  have 1: "\<And>st. docker_status_exc W F st = docker_status W st"
    by (simp add: docker_status_exc_def docker_status_def run_c bnd_def split: prod.splits)
  have 2: "\<And>st. reachability_exc W F st = reachability W st"
    by (simp add: reachability_exc_def reachability_def http_c bnd_def split: prod.splits)
  have 3: "\<And>st. list_models_exc W F st = list_models W st"
    by (simp add: list_models_exc_def list_models_def http_c bnd_def split: prod.splits)
  have 4: "\<And>st. download_model_exc W F st = download_model W st"
    by (simp add: download_model_exc_def download_model_def http_c thn_def Let_def
          wait_until_exc_calm [of "download_ready_exc W F" "download_ready W", OF dr]
          split: prod.splits)
  have 5: "\<And>st. ensure_deployment_exc W F st = ensure_deployment W st"
    by (simp add: ensure_deployment_exc_def ensure_deployment_def http_c thn_def Let_def bnd_def ds
          wait_until_exc_calm [of "deploy_status_exc W F" "deploy_status W", OF ds]
          split: prod.splits)
  have 6: "\<And>st. ingest_pipeline_exc W F st = ingest_pipeline W st"
    by (simp add: ingest_pipeline_exc_def ingest_pipeline_def http_c bnd_def Let_def
          split: prod.splits)
  have 7: "\<And>st. index_mapping_exc W F st = index_mapping W st"
    by (simp add: index_mapping_exc_def index_mapping_def http_c bnd_def Let_def
          split: prod.splits)
  have 8: "\<And>st. restart_logstash_exc W F st = restart_logstash W st"
    by (simp add: restart_logstash_exc_def restart_logstash_def run_c bnd_def Let_def
          split: prod.splits)
  have 9: "\<And>st. restart_and_count_exc W F st = restart_and_count W st"
    by (auto simp: restart_and_count_exc_def restart_and_count_def 8 http_c bnd_def Let_def
          split: prod.splits res.splits)
  have 10: "\<And>st. logstash_evidence_exc W F st = (Val (), logstash_evidence W st)"
    by (simp add: logstash_evidence_exc_def logstash_evidence_def run_c bnd_def Let_def
          split: prod.splits)
  have e: "docker_status_exc W F = docker_status W" "reachability_exc W F = reachability W"
    "list_models_exc W F = list_models W" "download_model_exc W F = download_model W"
    "ensure_deployment_exc W F = ensure_deployment W" "ingest_pipeline_exc W F = ingest_pipeline W"
    "index_mapping_exc W F = index_mapping W" "restart_and_count_exc W F = restart_and_count W"
    by (rule ext, simp add: 1 2 3 4 5 6 7 9)+
  have l: "(\<lambda>(u::unit) st.
             thn (Some (logstash_evidence_exc W F st)) (\<lambda>(u::unit) st.
               Some (Exit 0,
                     ok ''If count is still 0, paste sections 6 and 7 output only.''
                       (heading ''DONE'' st)))) =
           (\<lambda>u st.
             Some (Exit 0,
                   ok ''If count is still 0, paste sections 6 and 7 output only.''
                     (heading ''DONE'' (logstash_evidence W st))))"
    by (intro ext) (simp add: 10 thn_def)
  show ?thesis
    unfolding main_exc_def main_def e l ..
qed

end
